theory Spec2Isabelle
  imports Complex_Main "HOL-Library.Word"
begin

section \<open>Values of the host language\<close>

text \<open>
  A JavaScript string is a sequence of UTF-16 code units, so the CJK marks of the text
  layout are single elements. A JavaScript number is idealised as a real: the claims
  below are about comparisons, products and sums, not about rounding.
\<close>

type_synonym code_unit = "16 word"
type_synonym jsstring = "code_unit list"

datatype error = Error string

text \<open>A string literal of the source, as code units (the literals used are ASCII).\<close>

definition js :: "string \<Rightarrow> jsstring" where
  "js s = map (\<lambda>c. of_nat (of_char c)) s"

definition startsWith :: "jsstring \<Rightarrow> jsstring \<Rightarrow> bool" where
  "startsWith s p = (take (length p) s = p)"

text \<open>
  \<open>WhiteSpace\<close> and \<open>LineTerminator\<close> of the language standard: what \<open>\\s\<close> matches in
  a regular expression and what \<open>String.prototype.trim\<close> strips.
\<close>

definition is_space :: "code_unit \<Rightarrow> bool" where
  "is_space c =
     (c \<in> set [0x09, 0x0A, 0x0B, 0x0C, 0x0D, 0x20, 0xA0, 0x1680, 0x2028, 0x2029, 0x202F,
                0x205F, 0x3000, 0xFEFF]
      \<or> (0x2000 \<le> c \<and> c \<le> 0x200A))"

definition trim :: "jsstring \<Rightarrow> jsstring" where
  "trim s = rev (dropWhile is_space (rev (dropWhile is_space s)))"

text \<open>An array coerced to a string (\<open>Array.prototype.toString\<close>): its elements joined by commas.\<close>

fun array_toString :: "jsstring list \<Rightarrow> jsstring" where
  "array_toString [] = []"
| "array_toString [s] = s"
| "array_toString (s # ss) = s @ [0x2C] @ array_toString ss"

section \<open>Path builder (libs/brainmaps.ts, class BrainMapsPath2D)\<close>

text \<open>
  The platform's \<open>Path2D\<close> is the sequence of the operations applied to it, each with
  the arguments it received. \<open>anticlockwise\<close> is an optional argument.
\<close>

datatype path_op =
    Arc real real real real real "bool option"
  | ArcTo real real real real real
  | BezierCurveTo real real real real real real
  | ClosePath
  | Ellipse real real real real real real real "bool option"
  | LineTo real real
  | MoveTo real real
  | QuadraticCurveTo real real real real
  | Rect real real real real

type_synonym Path2D = "path_op list"

record BrainMapsPath2D =
  path2d :: Path2D

definition new_BrainMapsPath2D :: BrainMapsPath2D where
  "new_BrainMapsPath2D = \<lparr>path2d = []\<rparr>"

text \<open>
  Every method reads \<open>window.devicePixelRatio\<close> when it is called: the first argument
  \<open>dpi\<close>. The second is the builder, returned updated.
\<close>

definition arc ::
  "real \<Rightarrow> BrainMapsPath2D \<Rightarrow> real \<Rightarrow> real \<Rightarrow> real \<Rightarrow> real \<Rightarrow> real \<Rightarrow> bool option
    \<Rightarrow> BrainMapsPath2D" where
  "arc dpi this x y radius startAngle endAngle anticlockwise =
     this\<lparr>path2d := path2d this @
       [Arc (x * dpi) (y * dpi) (radius * dpi) startAngle endAngle anticlockwise]\<rparr>"

definition arcTo ::
  "real \<Rightarrow> BrainMapsPath2D \<Rightarrow> real \<Rightarrow> real \<Rightarrow> real \<Rightarrow> real \<Rightarrow> real \<Rightarrow> BrainMapsPath2D" where
  "arcTo dpi this x1 y1 x2 y2 radius =
     this\<lparr>path2d := path2d this @
       [Arc (x1 * dpi) (y1 * dpi) (x2 * dpi) (y2 * dpi) (radius * dpi) None]\<rparr>"

definition bezierCurveTo ::
  "real \<Rightarrow> BrainMapsPath2D \<Rightarrow> real \<Rightarrow> real \<Rightarrow> real \<Rightarrow> real \<Rightarrow> real \<Rightarrow> real
    \<Rightarrow> BrainMapsPath2D" where
  "bezierCurveTo dpi this cp1x cp1y cp2x cp2y x y =
     this\<lparr>path2d := path2d this @
       [BezierCurveTo (cp1x * dpi) (cp1y * dpi) (cp2x * dpi) (cp2y * dpi) (x * dpi) (y * dpi)]\<rparr>"

definition closePath :: "BrainMapsPath2D \<Rightarrow> BrainMapsPath2D" where
  "closePath this = this\<lparr>path2d := path2d this @ [ClosePath]\<rparr>"

definition ellipse ::
  "real \<Rightarrow> BrainMapsPath2D \<Rightarrow> real \<Rightarrow> real \<Rightarrow> real \<Rightarrow> real \<Rightarrow> real \<Rightarrow> real \<Rightarrow> real
    \<Rightarrow> bool option \<Rightarrow> BrainMapsPath2D" where
  "ellipse dpi this x y radiusX radiusY rotation startAngle endAngle anticlockwise =
     this\<lparr>path2d := path2d this @
       [Ellipse (x * dpi) (y * dpi) (radiusX * dpi) (radiusY * dpi) (rotation * dpi)
          startAngle endAngle anticlockwise]\<rparr>"

definition lineTo :: "real \<Rightarrow> BrainMapsPath2D \<Rightarrow> real \<Rightarrow> real \<Rightarrow> BrainMapsPath2D" where
  "lineTo dpi this x y = this\<lparr>path2d := path2d this @ [LineTo (x * dpi) (y * dpi)]\<rparr>"

definition moveTo :: "real \<Rightarrow> BrainMapsPath2D \<Rightarrow> real \<Rightarrow> real \<Rightarrow> BrainMapsPath2D" where
  "moveTo dpi this x y = this\<lparr>path2d := path2d this @ [MoveTo (x * dpi) (y * dpi)]\<rparr>"

definition quadraticCurveTo ::
  "real \<Rightarrow> BrainMapsPath2D \<Rightarrow> real \<Rightarrow> real \<Rightarrow> real \<Rightarrow> real \<Rightarrow> BrainMapsPath2D" where
  "quadraticCurveTo dpi this cpx cpy x y =
     this\<lparr>path2d := path2d this @
       [QuadraticCurveTo (cpx * dpi) (cpy * dpi) (x * dpi) (y * dpi)]\<rparr>"

definition rect ::
  "real \<Rightarrow> BrainMapsPath2D \<Rightarrow> real \<Rightarrow> real \<Rightarrow> real \<Rightarrow> real \<Rightarrow> BrainMapsPath2D" where
  "rect dpi this x y w h =
     this\<lparr>path2d := path2d this @ [Rect (x * dpi) (y * dpi) (w * dpi) (h * dpi)]\<rparr>"

definition getPath :: "BrainMapsPath2D \<Rightarrow> Path2D" where
  "getPath this = path2d this"

section \<open>Shape library (libs/shapes.ts)\<close>

text \<open>The fields \<open>x\<close> and \<open>y\<close> of the interface \<open>Point\<close> are \<open>px\<close> and \<open>py\<close> here.\<close>

record Point =
  px :: real
  py :: real

definition roundedRectangle ::
  "real \<Rightarrow> real \<Rightarrow> real \<Rightarrow> real \<Rightarrow> real \<Rightarrow> real \<Rightarrow> error + BrainMapsPath2D" where
  "roundedRectangle dpi anchorX anchorY width height borderRadius =
     (if anchorX < 0 \<or> anchorY < 0 \<or> width \<le> 0 \<or> height \<le> 0 \<or> borderRadius < 0
      then Inl (Error ''Invalid input'')
      else
        let node = new_BrainMapsPath2D in
        if borderRadius = 0
        then Inr (rect dpi node (anchorX - 0.5 * width) (anchorY - 0.5 * height) width height)
        else
          let borderRadius = min (0.5 * min width height) borderRadius;
              topLeftCorner = \<lparr>px = anchorX - 0.5 * width, py = anchorY - 0.5 * height\<rparr>;
              topRightCorner = \<lparr>px = anchorX + 0.5 * width, py = anchorY - 0.5 * height\<rparr>;
              bottomLeftCorner = \<lparr>px = anchorX - 0.5 * width, py = anchorY + 0.5 * height\<rparr>;
              bottomRightCorner = \<lparr>px = anchorX + 0.5 * width, py = anchorY + 0.5 * height\<rparr>;
              topLeftCenter =
                \<lparr>px = px topLeftCorner + borderRadius, py = py topLeftCorner + borderRadius\<rparr>;
              topRightCenter =
                \<lparr>px = px topRightCorner - borderRadius, py = py topRightCorner + borderRadius\<rparr>;
              bottomLeftCenter =
                \<lparr>px = px bottomLeftCorner + borderRadius, py = py bottomLeftCorner - borderRadius\<rparr>;
              bottomRightCenter =
                \<lparr>px = px bottomRightCorner - borderRadius,
                 py = py bottomRightCorner - borderRadius\<rparr>;
              node = moveTo dpi node (px topLeftCorner) (py topLeftCorner + borderRadius);
              node = arc dpi node (px topLeftCenter) (py topLeftCenter) borderRadius
                       (- pi) (- pi / 2) None;
              node = lineTo dpi node (px topRightCorner - borderRadius) (py topRightCorner);
              node = arc dpi node (px topRightCenter) (py topRightCenter) borderRadius
                       (- pi / 2) 0 None;
              node = lineTo dpi node (px bottomRightCorner) (py bottomRightCorner - borderRadius);
              node = arc dpi node (px bottomRightCenter) (py bottomRightCenter) borderRadius
                       0 (pi / 2) None;
              node = lineTo dpi node (px bottomLeftCorner + borderRadius) (py bottomLeftCorner);
              node = arc dpi node (px bottomLeftCenter) (py bottomLeftCenter) borderRadius
                       (pi / 2) pi None;
              node = lineTo dpi node (px topLeftCorner) (py topLeftCorner + borderRadius);
              node = closePath node
          in Inr node)"

section \<open>Text layout (layoutText)\<close>

text \<open>
  \<open>layoutText\<close> is not exported; \<open>textNode\<close> calls it with every option set, from
  the caller or from the defaults. The fields \<open>size\<close> and \<open>lines\<close> of its result are
  \<open>size_box\<close> and \<open>lines_out\<close> here.
\<close>

record box_size =
  width :: real
  height :: real

record TextOptions =
  textAlign :: jsstring
  textSize :: real
  textColor :: jsstring
  textFont :: jsstring
  textMaxWidth :: real

record layout =
  size_box :: box_size
  lines_out :: "jsstring list"

text \<open>
  \<open>tryLayout\<close> puts the string into a hidden element of the document and reads the
  element's client size. The document is a parameter: a function from font family, font
  size and text to the size it renders at.
\<close>

type_synonym document = "jsstring \<Rightarrow> real \<Rightarrow> jsstring \<Rightarrow> box_size"

definition tryLayout :: "document \<Rightarrow> TextOptions \<Rightarrow> jsstring \<Rightarrow> box_size" where
  "tryLayout doc textOptions str = doc (textFont textOptions) (textSize textOptions) str"

text \<open>
  The units: \<open>text.match(/([a-z!,.'"?()]+\s?)|([^a-z\s])/gi)\<close>. With the flag \<open>i\<close>
  (and without \<open>u\<close>) the class \<open>[a-z]\<close> is the ASCII letters of both cases. At each
  position the first alternative takes the longest run of word characters and one
  following white space character if there is one; the second takes one character that is
  neither a letter nor white space; a position where neither matches is skipped.
\<close>

definition is_ascii_letter :: "code_unit \<Rightarrow> bool" where
  "is_ascii_letter c = ((0x41 \<le> c \<and> c \<le> 0x5A) \<or> (0x61 \<le> c \<and> c \<le> 0x7A))"

definition is_word_char :: "code_unit \<Rightarrow> bool" where
  "is_word_char c =
     (is_ascii_letter c \<or> c \<in> set [0x21, 0x2C, 0x2E, 0x27, 0x22, 0x3F, 0x28, 0x29])"

function match_all :: "jsstring \<Rightarrow> jsstring list" where
  "match_all [] = []"
| "match_all (c # cs) =
     (if is_word_char c then
        (case dropWhile is_word_char cs of
           [] \<Rightarrow> [c # takeWhile is_word_char cs]
         | s # rest \<Rightarrow>
             if is_space s then (c # takeWhile is_word_char cs @ [s]) # match_all rest
             else (c # takeWhile is_word_char cs) # match_all (s # rest))
      else if \<not> is_ascii_letter c \<and> \<not> is_space c then [c] # match_all cs
      else match_all cs)"
  by pat_completeness auto
termination
proof (relation "measure length")
  fix c :: code_unit and cs s rest
  assume d: "dropWhile is_word_char cs = s # rest"
  have "length (s # rest) \<le> length cs"
    unfolding d [symmetric] by (rule length_dropWhile_le)
  then show "(rest, c # cs) \<in> measure length" and "(s # rest, c # cs) \<in> measure length"
    by simp_all
qed simp_all

text \<open>\<open>String.prototype.match\<close> with a global expression returns null when nothing matches.\<close>

definition text_match :: "jsstring \<Rightarrow> jsstring list option" where
  "text_match text = (case match_all text of [] \<Rightarrow> None | g # gs \<Rightarrow> Some (g # gs))"

text \<open>
  The marks \<open>"\<dots>".split('')\<close> of the post-processing loop, in the order of the source:
  full-width comma, ideographic full stop, full-width exclamation mark, semicolon and
  question mark, left and right double quotation mark, full-width colon, left and right
  full-width parenthesis.
\<close>

definition cn_punc :: "jsstring list" where
  "cn_punc = map (\<lambda>c. [c])
     [0xFF0C, 0x3002, 0xFF01, 0xFF1B, 0xFF1F, 0x201C, 0x201D, 0xFF1A, 0xFF08, 0xFF09]"

text \<open>
  The loop \<open>for (let i = 0; i < _temp_text.length; i++)\<close>: the index, the units from
  index \<open>i\<close> on, and \<open>_cnpunc_array\<close>. The array is written at its last index only when
  \<open>i > 0\<close>, when it is not empty (\<open>cnpunc_loop_nonempty\<close>).
\<close>

fun cnpunc_loop :: "nat \<Rightarrow> jsstring list \<Rightarrow> jsstring list \<Rightarrow> jsstring list" where
  "cnpunc_loop i [] cnpunc_array = cnpunc_array"
| "cnpunc_loop i (t # ts) cnpunc_array =
     cnpunc_loop (i + 1) ts
       (if i > 0 \<and> t \<in> set cn_punc
        then cnpunc_array[length cnpunc_array - 1 :=
               cnpunc_array ! (length cnpunc_array - 1) @ t]
        else cnpunc_array @ [t])"

text \<open>The state of the line-fill loop: the variables it assigns.\<close>

record fill_state =
  temp_text :: "jsstring list"
  lines :: "jsstring list"
  line_pointer :: jsstring
  maxWidth :: real

text \<open>One round of \<open>while (_temp_text.length > 0)\<close>, entered with a unit left.\<close>

definition fill_step :: "document \<Rightarrow> TextOptions \<Rightarrow> fill_state \<Rightarrow> fill_state" where
  "fill_step doc textOptions st =
     (let next_word = take 1 (temp_text st);
          sz = tryLayout doc textOptions (trim (line_pointer st @ array_toString next_word))
      in if width sz \<le> textMaxWidth textOptions then
           st\<lparr>line_pointer := line_pointer st @ array_toString next_word,
              lines := (lines st)[length (lines st) - 1 :=
                         line_pointer st @ array_toString next_word],
              temp_text := drop 1 (temp_text st),
              maxWidth := max (width sz) (maxWidth st)\<rparr>
         else if length (lines st ! (length (lines st) - 1)) \<noteq> 0 then
           st\<lparr>lines := (lines st)[length (lines st) - 1 :=
                         trim (lines st ! (length (lines st) - 1))] @ [[]],
              line_pointer := []\<rparr>
         else st)"

text \<open>The loop may run forever: not returning is the value \<open>None\<close>.\<close>

partial_function (option) fill_lines ::
  "document \<Rightarrow> TextOptions \<Rightarrow> fill_state \<Rightarrow> fill_state option" where
  "fill_lines doc textOptions st =
     (if length (temp_text st) > 0
      then fill_lines doc textOptions (fill_step doc textOptions st)
      else Some st)"

text \<open>The variables as the loop is entered: \<open>lines = ['']\<close>, an empty line buffer, width 0.\<close>

definition fill_start :: "jsstring list \<Rightarrow> fill_state" where
  "fill_start units = \<lparr>temp_text = units, lines = [[]], line_pointer = [], maxWidth = 0\<rparr>"

text \<open>
  \<open>layoutText\<close>. A null result of \<open>match\<close> makes \<open>text_groups.slice()\<close> throw inside
  the \<open>try\<close>; the handler rethrows it as \<open>Unable to parse text: \<dots>\<close>, the rest of the
  message being the engine's.
\<close>

definition layoutText :: "document \<Rightarrow> jsstring \<Rightarrow> TextOptions \<Rightarrow> (error + layout) option" where
  "layoutText doc text textOptions =
     (if textMaxWidth textOptions \<le> 0 then
        Some (Inr \<lparr>size_box = tryLayout doc textOptions text, lines_out = [text]\<rparr>)
      else
        (case text_match text of
           None \<Rightarrow> Some (Inl (Error ''Unable to parse text''))
         | Some text_groups \<Rightarrow>
             (case fill_lines doc textOptions (fill_start (cnpunc_loop 0 text_groups [])) of
                None \<Rightarrow> None
              | Some st \<Rightarrow>
                  Some (Inr
                    \<lparr>size_box =
                       \<lparr>width = min (maxWidth st) (textMaxWidth textOptions),
                        height = real (length (lines st)) * textSize textOptions
                          + (real (length (lines st)) - 1) * 0.25 * textSize textOptions\<rparr>,
                     lines_out = lines st\<rparr>))))"

section \<open>Scene and event engine (libs/brainmaps.ts, class BrainMaps)\<close>

text \<open>
  A callback is a function value of the caller's, known here by a name. Calling it is
  recorded; what it does is the caller's. The field \<open>id\<close> of the interface is
  \<open>id_attr\<close> here. \<open>isFillObject\<close> is not declared by the interface and is carried by
  the objects \<open>createObject\<close> returns.
\<close>

type_synonym callback = nat

record Drawable =
  uuid :: jsstring
  id_attr :: jsstring
  path :: Path2D
  fillObject :: "bool option"
  fillStyle :: "jsstring option"
  strokeStyle :: "jsstring option"
  lineWidth :: "real option"
  onHover :: "callback option"
  onClick :: "callback option"
  onMouseLeave :: "callback option"
  onRightClick :: "callback option"
  onDoubleClick :: "callback option"
  drawText :: "callback option"
  isFillObject :: "bool option"

text \<open>
  What reaches the canvas and its rendering context, in order: attribute and property
  assignments, drawing operations, and calls of \<open>drawText\<close> callbacks with the context.
\<close>

datatype surface_op =
    SetAttribute string real
  | ClearRect real real real real
  | SetFillStyle jsstring
  | SetStrokeStyle jsstring
  | SetLineWidth real
  | Fill Path2D
  | Stroke Path2D
  | CallDrawText callback

text \<open>The hit tests of the rendering context, on a path and a point.\<close>

record context2d =
  isPointInPath :: "Path2D \<Rightarrow> real \<Rightarrow> real \<Rightarrow> bool"
  isPointInStroke :: "Path2D \<Rightarrow> real \<Rightarrow> real \<Rightarrow> bool"

text \<open>
  The instance: the canvas's client size, the private fields, and the operations applied
  to the canvas and its context so far.
\<close>

record BrainMaps =
  clientWidth :: real
  clientHeight :: real
  OBJ_STACK :: "Drawable list"
  objcache_last_hist :: "Drawable option"
  mousemove_callbacks :: "callback list"
  mouseclick_callbacks :: "callback list"
  mousedoubleclick_callbacks :: "callback list"
  mouserightclick_callbacks :: "callback list"
  mouseleave_callbacks :: "callback list"
  surface :: "surface_op list"

text \<open>
  The window: the device pixel ratio, and the callbacks registered with
  \<open>requestAnimationFrame\<close> and not yet run. The only function this class registers is
  the arrow function of \<open>draw\<close>, which refers to the instance and nothing else.
\<close>

datatype frame_callback = DrawFrame

record window =
  devicePixelRatio :: real
  animation_frame_callbacks :: "frame_callback list"

datatype event_type = hover | mouseleave | doubleclick | click | rightclick

datatype call = Call callback Drawable

subsection \<open>Hit scan and dispatch (\_trigger\_events)\<close>

text \<open>The variables the scan assigns: three locals and the hover cache.\<close>

record scan =
  hit_objs :: "Drawable list"
  missed_objs :: "Drawable list"
  object_hit :: bool
  last_hist :: "Drawable option"

text \<open>
  The block both hit branches of the scan run (source lines 114 to 122 and 127 to 135).
\<close>

definition record_hit :: "Drawable \<Rightarrow> scan \<Rightarrow> scan" where
  "record_hit obj s =
     (let s = s\<lparr>hit_objs := hit_objs s @ [obj]\<rparr>;
          s = s\<lparr>object_hit := True\<rparr>;
          s = (case last_hist s of
                 Some cached \<Rightarrow>
                   if uuid cached \<noteq> uuid obj
                   then s\<lparr>missed_objs := missed_objs s @ [cached]\<rparr> else s
               | None \<Rightarrow> s)
      in s\<lparr>last_hist := Some obj\<rparr>)"

text \<open>The tail of the scan's body (source lines 140 to 146), reached unless a hit returned.\<close>

definition check_cached :: "Drawable \<Rightarrow> scan \<Rightarrow> scan" where
  "check_cached obj s =
     (case last_hist s of
        Some cached \<Rightarrow>
          if uuid cached = uuid obj
          then s\<lparr>missed_objs := missed_objs s @ [obj], last_hist := None\<rparr> else s
      | None \<Rightarrow> s)"

definition scan_obj :: "context2d \<Rightarrow> real \<Rightarrow> real \<Rightarrow> Drawable \<Rightarrow> scan \<Rightarrow> scan" where
  "scan_obj ctx mouseX mouseY obj s =
     (if object_hit s = False then
        if fillObject obj = Some True then
          if isPointInPath ctx (path obj) mouseX mouseY then record_hit obj s
          else check_cached obj s
        else
          if isPointInStroke ctx (path obj) mouseX mouseY then record_hit obj s
          else check_cached obj s
      else check_cached obj s)"

text \<open>\<open>this._OBJ_STACK.slice().reverse().map(\<dots>)\<close>, with the pointer already scaled.\<close>

definition scan_stack :: "context2d \<Rightarrow> BrainMaps \<Rightarrow> real \<Rightarrow> real \<Rightarrow> scan" where
  "scan_stack ctx this mouseX mouseY =
     fold (scan_obj ctx mouseX mouseY) (rev (OBJ_STACK this))
       \<lparr>hit_objs = [], missed_objs = [], object_hit = False,
        last_hist = objcache_last_hist this\<rparr>"

text \<open>
  The listener of a hit object for the event type; \<open>mouseleave\<close> has no case in the
  switch. A callback that throws is caught and logged to the console: it has been called.
\<close>

definition hit_listener :: "event_type \<Rightarrow> Drawable \<Rightarrow> call list" where
  "hit_listener eventType obj =
     (case eventType of
        click \<Rightarrow> (case onClick obj of Some f \<Rightarrow> [Call f obj] | None \<Rightarrow> [])
      | doubleclick \<Rightarrow> (case onDoubleClick obj of Some f \<Rightarrow> [Call f obj] | None \<Rightarrow> [])
      | rightclick \<Rightarrow> (case onRightClick obj of Some f \<Rightarrow> [Call f obj] | None \<Rightarrow> [])
      | hover \<Rightarrow> (case onHover obj of Some f \<Rightarrow> [Call f obj] | None \<Rightarrow> [])
      | mouseleave \<Rightarrow> [])"

definition missed_listener :: "Drawable \<Rightarrow> call list" where
  "missed_listener obj = (case onMouseLeave obj of Some f \<Rightarrow> [Call f obj] | None \<Rightarrow> [])"

text \<open>
  \<open>_trigger_events\<close> returns \<open>object_hit\<close>; the model returns with it the calls made,
  in order, and the instance with its hover cache updated.
\<close>

definition trigger_events ::
  "window \<Rightarrow> context2d \<Rightarrow> BrainMaps \<Rightarrow> real \<Rightarrow> real \<Rightarrow> event_type
    \<Rightarrow> bool \<times> call list \<times> BrainMaps" where
  "trigger_events win ctx this mouseX mouseY eventType =
     (let dpi = devicePixelRatio win;
          mouseX = mouseX * dpi;
          mouseY = mouseY * dpi;
          s = scan_stack ctx this mouseX mouseY
      in (object_hit s,
          concat (map (hit_listener eventType) (hit_objs s))
            @ concat (map missed_listener (missed_objs s)),
          this\<lparr>objcache_last_hist := last_hist s\<rparr>))"

subsection \<open>Store operations\<close>

definition reload_eventlisteners :: "BrainMaps \<Rightarrow> BrainMaps" where
  "reload_eventlisteners this =
     this\<lparr>mouseclick_callbacks := List.map_filter onClick (OBJ_STACK this),
          mousedoubleclick_callbacks := List.map_filter onDoubleClick (OBJ_STACK this),
          mouserightclick_callbacks := List.map_filter onRightClick (OBJ_STACK this),
          mousemove_callbacks := List.map_filter onHover (OBJ_STACK this),
          mouseleave_callbacks := List.map_filter onMouseLeave (OBJ_STACK this)\<rparr>"

text \<open>The argument is \<open>None\<close> when the caller passes no object.\<close>

definition addObject :: "BrainMaps \<Rightarrow> Drawable option \<Rightarrow> error + BrainMaps" where
  "addObject this object =
     (case object of
        None \<Rightarrow> Inl (Error ''Drawable object required'')
      | Some obj \<Rightarrow> Inr (reload_eventlisteners (this\<lparr>OBJ_STACK := OBJ_STACK this @ [obj]\<rparr>)))"

text \<open>\<open>searchObject\<close>: the \<open>map\<close> visits every entry and assigns \<open>target\<close> at each match.\<close>

definition searchObject :: "BrainMaps \<Rightarrow> jsstring \<Rightarrow> Drawable option" where
  "searchObject this identifier =
     fold (\<lambda>obj target. if id_attr obj = identifier then Some obj else target)
       (OBJ_STACK this) None"

subsection \<open>Painting (draw)\<close>

definition fixDPI :: "window \<Rightarrow> BrainMaps \<Rightarrow> BrainMaps" where
  "fixDPI win this =
     (let dpi = devicePixelRatio win
      in this\<lparr>surface := surface this @
           [SetAttribute ''height'' (clientHeight this * dpi),
            SetAttribute ''width'' (clientWidth this * dpi)]\<rparr>)"

text \<open>
  \<open>_drawObject\<close>, as the operations it applies. Without a \<open>strokeStyle\<close> the source
  assigns \<open>fillStyle\<close> a second time.
\<close>

definition drawObject :: "Drawable \<Rightarrow> surface_op list" where
  "drawObject object =
     [case fillStyle object of
        Some c \<Rightarrow> SetFillStyle c | None \<Rightarrow> SetFillStyle (js ''rgba(255, 255, 255, 1)'')]
     @ [case strokeStyle object of
          Some c \<Rightarrow> SetStrokeStyle c | None \<Rightarrow> SetFillStyle (js ''rgba(0, 0, 0, 1)'')]
     @ [case lineWidth object of Some w \<Rightarrow> SetLineWidth w | None \<Rightarrow> SetLineWidth 2]
     @ (if fillObject object = Some True then [Fill (path object)] else [])
     @ [Stroke (path object)]
     @ (case drawText object of Some f \<Rightarrow> [CallDrawText f] | None \<Rightarrow> [])"

text \<open>The arrow function \<open>draw\<close> registers: one paint of the surface.\<close>

definition paint_ops :: "BrainMaps \<Rightarrow> surface_op list" where
  "paint_ops this =
     ClearRect 0 0 (clientWidth this) (clientHeight this)
       # concat (map drawObject (OBJ_STACK this))"

definition run_frame_callback :: "frame_callback \<Rightarrow> BrainMaps \<Rightarrow> BrainMaps" where
  "run_frame_callback cb this =
     (case cb of DrawFrame \<Rightarrow> this\<lparr>surface := surface this @ paint_ops this\<rparr>)"

text \<open>
  \<open>window.requestAnimationFrame(f)\<close> appends \<open>f\<close> to the window's list of animation
  frame callbacks, whatever the list holds. At the next frame the platform empties the
  list and calls its entries in order.
\<close>

definition requestAnimationFrame :: "window \<Rightarrow> frame_callback \<Rightarrow> window" where
  "requestAnimationFrame win cb =
     win\<lparr>animation_frame_callbacks := animation_frame_callbacks win @ [cb]\<rparr>"

definition run_animation_frame :: "window \<times> BrainMaps \<Rightarrow> window \<times> BrainMaps" where
  "run_animation_frame wb =
     (case wb of (win, this) \<Rightarrow>
        (win\<lparr>animation_frame_callbacks := []\<rparr>,
         fold run_frame_callback (animation_frame_callbacks win) this))"

definition draw :: "window \<times> BrainMaps \<Rightarrow> window \<times> BrainMaps" where
  "draw wb =
     (case wb of (win, this) \<Rightarrow>
        let this = fixDPI win this in
        if length (OBJ_STACK this) = 0
        then (win, this\<lparr>surface := surface this @
                [ClearRect 0 0 (clientWidth this) (clientHeight this)]\<rparr>)
        else (requestAnimationFrame win DrawFrame, this))"

subsection \<open>The drawable factory (createObject)\<close>

text \<open>
  The third parameter is destructured with defaults: each field may be absent, and so may
  \<open>isFillObject\<close>. \<open>uuid.v4()\<close> is a generator of the \<open>uuid\<close> package: a function
  from its state to an identifier and the next state. Every key of the first argument of
  \<open>_.merge\<close> is a key of the second with a defined value, and the path is not a plain
  object, so the result holds the second argument's values.
\<close>

record RenderOptions =
  opt_fillStyle :: "jsstring option"
  opt_strokeStyle :: "jsstring option"
  opt_lineWidth :: "real option"

definition createObject ::
  "('g \<Rightarrow> jsstring \<times> 'g) \<Rightarrow> 'g \<Rightarrow> jsstring \<Rightarrow> BrainMapsPath2D \<Rightarrow> RenderOptions \<Rightarrow> bool option
    \<Rightarrow> error + Drawable \<times> 'g" where
  "createObject v4 g ident bpath options fill =
     (let fillStyle' = (case opt_fillStyle options of Some c \<Rightarrow> c | None \<Rightarrow> js ''#FFFFFF'');
          strokeStyle' = (case opt_strokeStyle options of Some c \<Rightarrow> c | None \<Rightarrow> js ''#000000'');
          lineWidth' = (case opt_lineWidth options of Some w \<Rightarrow> w | None \<Rightarrow> 2);
          isFillObject' = (case fill of Some b \<Rightarrow> b | None \<Rightarrow> False)
      in if \<not> startsWith ident (js ''#'')
         then Inl (Error ''id must start with # and be a valid identifier'')
         else
           let (uid, g') = v4 g
           in Inr (\<lparr>uuid = uid, id_attr = ident, path = getPath bpath,
                     fillObject = Some isFillObject', fillStyle = Some fillStyle',
                     strokeStyle = Some strokeStyle', lineWidth = Some lineWidth',
                     onHover = None, onClick = None, onMouseLeave = None,
                     onRightClick = None, onDoubleClick = None, drawText = None,
                     isFillObject = Some isFillObject'\<rparr>, g'))"

section \<open>The hit test as the specification words it\<close>

text \<open>
  The specification's hit test: the candidate is tested in its fill when its fill mode is
  true and in its stroke otherwise, the store is scanned topmost first, and the first
  match is the hit.
\<close>

definition spec_geometric_match :: "context2d \<Rightarrow> real \<Rightarrow> real \<Rightarrow> Drawable \<Rightarrow> bool" where
  "spec_geometric_match ctx mx my obj =
     (if fillObject obj = Some True then isPointInPath ctx (path obj) mx my
      else isPointInStroke ctx (path obj) mx my)"

definition spec_hit :: "context2d \<Rightarrow> Drawable list \<Rightarrow> real \<Rightarrow> real \<Rightarrow> Drawable option" where
  "spec_hit ctx stack mx my = find (spec_geometric_match ctx mx my) (rev stack)"

section \<open>The contract of the identifier generator\<close>

text \<open>
  What the \<open>uuid\<close> package promises of \<open>v4\<close>: from any state, the identifiers of two
  different draws differ. The state after \<open>n\<close> draws is \<open>((snd \<circ> v4) ^^ n) g\<close>.
\<close>

definition never_repeats :: "('g \<Rightarrow> jsstring \<times> 'g) \<Rightarrow> bool" where
  "never_repeats v4 =
     (\<forall>g m n. m \<noteq> n \<longrightarrow>
        fst (v4 (((snd \<circ> v4) ^^ m) g)) \<noteq> fst (v4 (((snd \<circ> v4) ^^ n) g)))"

section \<open>The rounds of the line-fill loop\<close>

text \<open>
  Notions for stating what the loop has observed: the width measured in the round
  entered at a state, whether that round commits its unit, and the widths measured by
  the committing rounds among the first \<open>k\<close> rounds from a state.
\<close>

definition round_width :: "document \<Rightarrow> TextOptions \<Rightarrow> fill_state \<Rightarrow> real" where
  "round_width doc textOptions st =
     width (tryLayout doc textOptions
       (trim (line_pointer st @ array_toString (take 1 (temp_text st)))))"

definition round_commits :: "document \<Rightarrow> TextOptions \<Rightarrow> fill_state \<Rightarrow> bool" where
  "round_commits doc textOptions st = (round_width doc textOptions st \<le> textMaxWidth textOptions)"

definition observed_widths :: "document \<Rightarrow> TextOptions \<Rightarrow> fill_state \<Rightarrow> nat \<Rightarrow> real list" where
  "observed_widths doc textOptions st k =
     map (round_width doc textOptions)
       (filter (round_commits doc textOptions)
          (map (\<lambda>j. (fill_step doc textOptions ^^ j) st) [0..<k]))"

section \<open>Example document\<close>

text \<open>
  A document that renders every code unit 10 wide, and the options of the demo page with
  a maximal width of 30.
\<close>

definition fixed_width :: document where
  "fixed_width font sz str = \<lparr>width = 10 * real (length str), height = 1.5 * sz\<rparr>"

definition options30 :: TextOptions where
  "options30 =
     \<lparr>textAlign = js ''left'', textSize = 24, textColor = js ''#FFFFFF'',
      textFont = js ''Arial'', textMaxWidth = 30\<rparr>"

section \<open>Example scene\<close>

text \<open>
  Two filled squares that overlap in the square from (5, 5) to (10, 10) and share the
  display id \<open>#node\<close>, in a store in the order \<open>node_a\<close>, \<open>node_b\<close>; a rendering
  context whose fill test knows rectangles; a window of device pixel ratio 2.
\<close>

definition node_a :: Drawable where
  "node_a =
     \<lparr>uuid = js ''a'', id_attr = js ''#node'', path = [Rect 0 0 10 10],
      fillObject = Some True, fillStyle = None, strokeStyle = None, lineWidth = None,
      onHover = Some 1, onClick = None, onMouseLeave = Some 2, onRightClick = None,
      onDoubleClick = None, drawText = None, isFillObject = None\<rparr>"

definition node_b :: Drawable where
  "node_b =
     \<lparr>uuid = js ''b'', id_attr = js ''#node'', path = [Rect 5 5 10 10],
      fillObject = Some True, fillStyle = None, strokeStyle = None, lineWidth = None,
      onHover = Some 3, onClick = None, onMouseLeave = Some 4, onRightClick = None,
      onDoubleClick = None, drawText = None, isFillObject = None\<rparr>"

definition new_scene :: BrainMaps where
  "new_scene =
     \<lparr>clientWidth = 300, clientHeight = 150, OBJ_STACK = [], objcache_last_hist = None,
      mousemove_callbacks = [], mouseclick_callbacks = [], mousedoubleclick_callbacks = [],
      mouserightclick_callbacks = [], mouseleave_callbacks = [], surface = []\<rparr>"

definition scene_a :: BrainMaps where
  "scene_a =
     new_scene\<lparr>OBJ_STACK := [node_a], mousemove_callbacks := [1],
       mouseleave_callbacks := [2]\<rparr>"

definition scene_ab :: BrainMaps where
  "scene_ab =
     new_scene\<lparr>OBJ_STACK := [node_a, node_b], mousemove_callbacks := [1, 3],
       mouseleave_callbacks := [2, 4]\<rparr>"

text \<open>The store after \<open>addObject\<close> of \<open>node_a\<close>, of \<open>node_b\<close>, and of \<open>node_b\<close> once more.\<close>

definition scene_abb :: BrainMaps where
  "scene_abb =
     new_scene\<lparr>OBJ_STACK := [node_a, node_b, node_b], mousemove_callbacks := [1, 3, 3],
       mouseleave_callbacks := [2, 4, 4]\<rparr>"

fun in_rect :: "real \<Rightarrow> real \<Rightarrow> path_op \<Rightarrow> bool" where
  "in_rect mx my (Rect a b w h) = (a \<le> mx \<and> mx \<le> a + w \<and> b \<le> my \<and> my \<le> b + h)"
| "in_rect mx my _ = False"

definition rect_context :: context2d where
  "rect_context =
     \<lparr>isPointInPath = (\<lambda>p mx my. list_ex (in_rect mx my) p),
      isPointInStroke = (\<lambda>p mx my. False)\<rparr>"

definition window2 :: window where
  "window2 = \<lparr>devicePixelRatio = 2, animation_frame_callbacks = []\<rparr>"

text \<open>Five calls of \<open>draw\<close> in a row, no frame in between.\<close>

definition five_draws :: "window \<times> BrainMaps" where
  "five_draws = draw (draw (draw (draw (draw (window2, scene_ab)))))"

text \<open>
  A generator of identifiers that counts (its \<open>n\<close>-th identifier is \<open>n\<close> letters u), a
  call that passes no render option, and a builder holding one rectangle.
\<close>

definition counter_v4 :: "nat \<Rightarrow> jsstring \<times> nat" where
  "counter_v4 n = (replicate n 0x75, Suc n)"

definition no_options :: RenderOptions where
  "no_options = \<lparr>opt_fillStyle = None, opt_strokeStyle = None, opt_lineWidth = None\<rparr>"

definition square_builder :: BrainMapsPath2D where
  "square_builder = rect 2 new_BrainMapsPath2D 0 0 5 5"

section \<open>Properties of the path builder and the shape library\<close>

lemma scaled_primitives:
  "path2d (moveTo dpi p a b) = path2d p @ [MoveTo (a * dpi) (b * dpi)]"
  "path2d (lineTo dpi p a b) = path2d p @ [LineTo (a * dpi) (b * dpi)]"
  "path2d (arc dpi p a b r sa ea acw) = path2d p @ [Arc (a * dpi) (b * dpi) (r * dpi) sa ea acw]"
  "path2d (bezierCurveTo dpi p a b c d e f) =
     path2d p @ [BezierCurveTo (a * dpi) (b * dpi) (c * dpi) (d * dpi) (e * dpi) (f * dpi)]"
  "path2d (quadraticCurveTo dpi p a b c d) =
     path2d p @ [QuadraticCurveTo (a * dpi) (b * dpi) (c * dpi) (d * dpi)]"
  "path2d (rect dpi p a b w h) = path2d p @ [Rect (a * dpi) (b * dpi) (w * dpi) (h * dpi)]"
  by (simp_all add: moveTo_def lineTo_def arc_def bezierCurveTo_def quadraticCurveTo_def
      rect_def)

text \<open>
  C8. Each primitive of the path builder scales its coordinates and radii by the device
  scale factor and applies the corresponding operation of the underlying path, angles
  unscaled. The code does so for \<open>moveTo\<close>, \<open>lineTo\<close>, \<open>arc\<close>, \<open>bezierCurveTo\<close>,
  \<open>quadraticCurveTo\<close> and \<open>rect\<close> (\<open>scaled_primitives\<close>), and misses it twice:
  \<open>arcTo\<close> applies the underlying \<open>arc\<close>, so that its second control point and its
  radius arrive as a radius and two angles, and \<open>ellipse\<close> scales the rotation angle.
  At scale factor 2, \<open>arcTo(1, 2, 3, 4, 5)\<close> yields the operation \<open>arc(2, 4, 6, 8, 10)\<close>
  and no \<open>arcTo\<close>, and \<open>ellipse(1, 2, 3, 4, 1, 0, 3)\<close> yields rotation 2.
\<close>

theorem arcTo_applies_arc_and_ellipse_scales_rotation:
  "getPath (arcTo 2 new_BrainMapsPath2D 1 2 3 4 5) = [Arc 2 4 6 8 10 None]
   \<and> getPath (arcTo 2 new_BrainMapsPath2D 1 2 3 4 5) \<noteq> [ArcTo 2 4 6 8 10]
   \<and> getPath (ellipse 2 new_BrainMapsPath2D 1 2 3 4 1 0 3 None) = [Ellipse 2 4 6 8 2 0 3 None]
   \<and> getPath (ellipse 2 new_BrainMapsPath2D 1 2 3 4 1 0 3 None) \<noteq> [Ellipse 2 4 6 8 1 0 3 None]"
  by (simp add: getPath_def arcTo_def ellipse_def new_BrainMapsPath2D_def)

text \<open>
  C6. \<open>roundedRectangle\<close> fails exactly when \<open>anchorX < 0\<close>, \<open>anchorY < 0\<close>,
  \<open>width \<le> 0\<close>, \<open>height \<le> 0\<close> or \<open>borderRadius < 0\<close>; the failure is the error
  \<open>Invalid input\<close>, raised before any path builder is created, so no path is produced.
  The function reads and writes no state besides the builder it creates itself.
\<close>

theorem roundedRectangle_fails_iff:
  "(roundedRectangle dpi ax ay w h r = Inl (Error ''Invalid input''))
     = (ax < 0 \<or> ay < 0 \<or> w \<le> 0 \<or> h \<le> 0 \<or> r < 0)
   \<and> isl (roundedRectangle dpi ax ay w h r)
     = (ax < 0 \<or> ay < 0 \<or> w \<le> 0 \<or> h \<le> 0 \<or> r < 0)"
  by (simp add: roundedRectangle_def Let_def)

theorem roundedRectangle_fails_iff_witness:
  "roundedRectangle 2 (- 1) 5 10 10 0 = Inl (Error ''Invalid input'')
   \<and> isl (roundedRectangle 2 5 5 0 10 0)
   \<and> \<not> isl (roundedRectangle 2 5 5 10 10 3)"
  using roundedRectangle_fails_iff [of 2 "- 1" 5 10 10 0]
    roundedRectangle_fails_iff [of 2 5 5 0 10 0]
    roundedRectangle_fails_iff [of 2 5 5 10 10 3]
  by simp

section \<open>Properties of the scene and event engine\<close>

lemma js_simps:
  "js [] = []"
  "js (c # cs) = of_nat (of_char c) # js cs"
  by (simp_all add: js_def)

lemma scene_ab_added:
  "addObject new_scene (Some node_a) = Inr scene_a"
  "addObject scene_a (Some node_b) = Inr scene_ab"
  by (simp_all add: addObject_def reload_eventlisteners_def new_scene_def scene_a_def
      scene_ab_def node_a_def node_b_def List.map_filter_simps)

subsection \<open>searchObject\<close>

lemma find_app:
  "find P (xs @ ys) = (case find P xs of None \<Rightarrow> find P ys | Some a \<Rightarrow> Some a)"
  by (induction xs) simp_all

lemma searchObject_fold:
  "fold (\<lambda>obj target. if id_attr obj = i then Some obj else target) xs t =
     (case find (\<lambda>obj. id_attr obj = i) (rev xs) of Some obj \<Rightarrow> Some obj | None \<Rightarrow> t)"
  by (induction xs arbitrary: t) (auto simp: find_app split: option.splits)

text \<open>
  C3, as the code has it. \<open>searchObject\<close> visits the whole store and keeps the match it
  saw last: it returns the last entry, in insertion order, whose display id equals the
  identifier, and the not-found value exactly when no entry matches.
\<close>

theorem searchObject_last_match:
  "searchObject this identifier =
     find (\<lambda>obj. id_attr obj = identifier) (rev (OBJ_STACK this))
   \<and> (searchObject this identifier = None)
     = (\<forall>obj\<in>set (OBJ_STACK this). id_attr obj \<noteq> identifier)"
proof -
  have "searchObject this identifier =
      find (\<lambda>obj. id_attr obj = identifier) (rev (OBJ_STACK this))"
    by (simp add: searchObject_def searchObject_fold split: option.splits)
  then show ?thesis by (auto simp: find_None_iff)
qed

theorem searchObject_last_match_witness:
  "searchObject scene_ab (js ''#node'') = Some node_b
   \<and> searchObject scene_ab (js ''#edge'') = None"
  using searchObject_last_match [of scene_ab "js ''#node''"]
    searchObject_last_match [of scene_ab "js ''#edge''"]
  by (simp add: scene_ab_def new_scene_def node_a_def node_b_def js_simps)

text \<open>
  C3, as the claim has it, fails where two entries share a display id: the first match
  in insertion order is \<open>node_a\<close>, and \<open>searchObject\<close> returns \<open>node_b\<close>.
\<close>

theorem searchObject_first_match_counterexample:
  "find (\<lambda>obj. id_attr obj = js ''#node'') (OBJ_STACK scene_ab) = Some node_a
   \<and> searchObject scene_ab (js ''#node'') = Some node_b
   \<and> node_a \<noteq> node_b"
  by (simp add: searchObject_def scene_ab_def new_scene_def node_a_def node_b_def js_simps)

subsection \<open>Hit test\<close>

lemma scan_obj_hit_already:
  "object_hit s \<Longrightarrow> hit_objs (scan_obj ctx mx my obj s) = hit_objs s \<and> object_hit (scan_obj ctx mx my obj s)"
  by (simp add: scan_obj_def check_cached_def split: option.splits)

lemma fold_scan_hit_already:
  "object_hit s \<Longrightarrow> hit_objs (fold (scan_obj ctx mx my) xs s) = hit_objs s \<and> object_hit (fold (scan_obj ctx mx my) xs s)"
  by (induction xs arbitrary: s) (simp_all add: scan_obj_hit_already)

lemma scan_obj_miss:
  "\<not> object_hit s \<Longrightarrow> \<not> spec_geometric_match ctx mx my obj \<Longrightarrow>
    hit_objs (scan_obj ctx mx my obj s) = hit_objs s \<and> \<not> object_hit (scan_obj ctx mx my obj s)"
  by (simp add: scan_obj_def check_cached_def spec_geometric_match_def split: option.splits if_splits)

lemma scan_obj_match:
  "\<not> object_hit s \<Longrightarrow> spec_geometric_match ctx mx my obj \<Longrightarrow>
    hit_objs (scan_obj ctx mx my obj s) = hit_objs s @ [obj] \<and> object_hit (scan_obj ctx mx my obj s)"
  by (simp add: scan_obj_def record_hit_def spec_geometric_match_def Let_def split: option.splits if_splits)

lemma fold_scan_hits:
  "\<not> object_hit s \<Longrightarrow>
    hit_objs (fold (scan_obj ctx mx my) xs s) =
      hit_objs s @ (case find (spec_geometric_match ctx mx my) xs of None \<Rightarrow> [] | Some obj \<Rightarrow> [obj])
    \<and> object_hit (fold (scan_obj ctx mx my) xs s) = (find (spec_geometric_match ctx mx my) xs \<noteq> None)"
proof (induction xs arbitrary: s)
  case Nil
  then show ?case by simp
next
  case (Cons a xs)
  show ?case
  proof (cases "spec_geometric_match ctx mx my a")
    case True
    with Cons.prems scan_obj_match [of s ctx mx my a]
      fold_scan_hit_already [of "scan_obj ctx mx my a s" ctx mx my xs]
    show ?thesis by simp
  next
    case False
    with Cons.prems scan_obj_miss [of s ctx mx my a] Cons.IH [of "scan_obj ctx mx my a s"]
    show ?thesis by simp
  qed
qed

lemma scan_stack_hits:
  "hit_objs (scan_stack ctx this mx my) = (case spec_hit ctx (OBJ_STACK this) mx my of None \<Rightarrow> [] | Some obj \<Rightarrow> [obj])"
  "object_hit (scan_stack ctx this mx my) = (spec_hit ctx (OBJ_STACK this) mx my \<noteq> None)"
  using fold_scan_hits [of "\<lparr>hit_objs = [], missed_objs = [], object_hit = False,
        last_hist = objcache_last_hist this\<rparr>" ctx mx my "rev (OBJ_STACK this)"]
  by (simp_all add: scan_stack_def spec_hit_def)


text \<open>
  C4. The scan of \<open>_trigger_events\<close> goes through the store topmost first, tests a
  candidate in its fill when \<open>fillObject\<close> is true and in its stroke otherwise, and the
  first match is the only hit: the hit list is the specification's hit, or empty; the
  returned flag says whether there is one; the listener of the event type is called on
  that object only, before the leave listeners. For two objects added in the order A, B
  to any store and a point both contain, the hit is B.
\<close>

theorem hit_test_topmost_wins:
  "hit_objs (scan_stack ctx this mx my) =
     (case spec_hit ctx (OBJ_STACK this) mx my of None \<Rightarrow> [] | Some obj \<Rightarrow> [obj])
   \<and> fst (trigger_events win ctx this mouseX mouseY eventType) =
       (spec_hit ctx (OBJ_STACK this) (mouseX * devicePixelRatio win)
          (mouseY * devicePixelRatio win) \<noteq> None)
   \<and> fst (snd (trigger_events win ctx this mouseX mouseY eventType)) =
       (case spec_hit ctx (OBJ_STACK this) (mouseX * devicePixelRatio win)
               (mouseY * devicePixelRatio win) of
          None \<Rightarrow> [] | Some obj \<Rightarrow> hit_listener eventType obj)
       @ concat (map missed_listener
           (missed_objs (scan_stack ctx this (mouseX * devicePixelRatio win)
              (mouseY * devicePixelRatio win))))
   \<and> (addObject this0 (Some A) = Inr this1 \<longrightarrow> addObject this1 (Some B) = Inr this2 \<longrightarrow>
        spec_geometric_match ctx mx my A \<longrightarrow> spec_geometric_match ctx mx my B \<longrightarrow>
        hit_objs (scan_stack ctx this2 mx my) = [B])"
proof -
  have ab: "hit_objs (scan_stack ctx this2 mx my) = [B]"
    if "addObject this0 (Some A) = Inr this1" "addObject this1 (Some B) = Inr this2"
      "spec_geometric_match ctx mx my B"
  proof -
    from that(1,2) have "OBJ_STACK this2 = OBJ_STACK this0 @ [A, B]"
      by (auto simp: addObject_def reload_eventlisteners_def)
    with that(3) show ?thesis by (simp add: scan_stack_hits spec_hit_def)
  qed
  have 1: "hit_objs (scan_stack ctx this mx my) =
     (case spec_hit ctx (OBJ_STACK this) mx my of None \<Rightarrow> [] | Some obj \<Rightarrow> [obj])"
    by (rule scan_stack_hits)
  have 2: "fst (trigger_events win ctx this mouseX mouseY eventType) =
       (spec_hit ctx (OBJ_STACK this) (mouseX * devicePixelRatio win)
          (mouseY * devicePixelRatio win) \<noteq> None)"
    by (simp add: trigger_events_def Let_def scan_stack_hits)
  have 3: "fst (snd (trigger_events win ctx this mouseX mouseY eventType)) =
       (case spec_hit ctx (OBJ_STACK this) (mouseX * devicePixelRatio win)
               (mouseY * devicePixelRatio win) of
          None \<Rightarrow> [] | Some obj \<Rightarrow> hit_listener eventType obj)
       @ concat (map missed_listener
           (missed_objs (scan_stack ctx this (mouseX * devicePixelRatio win)
              (mouseY * devicePixelRatio win))))"
    by (simp add: trigger_events_def Let_def scan_stack_hits split: option.splits)
  from 1 2 3 ab show ?thesis by blast
qed

theorem hit_test_topmost_wins_witness:
  "addObject new_scene (Some node_a) = Inr scene_a
   \<and> addObject scene_a (Some node_b) = Inr scene_ab
   \<and> spec_geometric_match rect_context 6 6 node_a
   \<and> spec_geometric_match rect_context 6 6 node_b
   \<and> hit_objs (scan_stack rect_context scene_ab 6 6) = [node_b]
   \<and> fst (trigger_events window2 rect_context scene_ab 3 3 click)"
  using hit_test_topmost_wins [of rect_context scene_ab 6 6 window2 3 3 click
      new_scene node_a scene_a node_b scene_ab]
  by (simp add: spec_hit_def spec_geometric_match_def rect_context_def scene_a_def scene_ab_def
      new_scene_def node_a_def node_b_def window2_def addObject_def reload_eventlisteners_def
      List.map_filter_simps)

subsection \<open>Hover cache\<close>

lemma scan_obj_idle:
  "\<not> object_hit s \<Longrightarrow> last_hist s = None \<Longrightarrow> \<not> spec_geometric_match ctx mx my obj \<Longrightarrow>
    scan_obj ctx mx my obj s = s"
  by (simp add: scan_obj_def check_cached_def spec_geometric_match_def split: if_splits)

lemma fold_scan_idle:
  "\<not> object_hit s \<Longrightarrow> last_hist s = None \<Longrightarrow> \<forall>obj\<in>set xs. \<not> spec_geometric_match ctx mx my obj \<Longrightarrow>
    fold (scan_obj ctx mx my) xs s = s"
  by (induction xs) (simp_all add: scan_obj_idle)

lemma scan_obj_other:
  "last_hist s = Some c \<Longrightarrow> object_hit s \<or> \<not> spec_geometric_match ctx mx my obj \<Longrightarrow>
    uuid obj \<noteq> uuid c \<Longrightarrow> scan_obj ctx mx my obj s = s"
  by (auto simp add: scan_obj_def check_cached_def spec_geometric_match_def split: if_splits)

lemma fold_scan_other:
  "last_hist s = Some c \<Longrightarrow> object_hit s \<or> (\<forall>obj\<in>set xs. \<not> spec_geometric_match ctx mx my obj) \<Longrightarrow>
    \<forall>obj\<in>set xs. uuid obj \<noteq> uuid c \<Longrightarrow> fold (scan_obj ctx mx my) xs s = s"
proof (induction xs)
  case Nil
  then show ?case by simp
next
  case (Cons a xs)
  from Cons.prems have "scan_obj ctx mx my a s = s"
    by (intro scan_obj_other [of s c]) auto
  with Cons show ?case by auto
qed

lemma scan_obj_leave:
  "\<not> object_hit s \<Longrightarrow> last_hist s = Some c \<Longrightarrow> \<not> spec_geometric_match ctx mx my c \<Longrightarrow>
    scan_obj ctx mx my c s = s\<lparr>missed_objs := missed_objs s @ [c], last_hist := None\<rparr>"
  by (simp add: scan_obj_def check_cached_def spec_geometric_match_def split: if_splits)

lemma fold_scan_leave:
  "\<not> object_hit s \<Longrightarrow> last_hist s = Some c \<Longrightarrow>
    \<forall>obj\<in>set xs. \<not> spec_geometric_match ctx mx my obj \<Longrightarrow>
    c \<in> set xs \<Longrightarrow> distinct (map uuid xs) \<Longrightarrow>
    fold (scan_obj ctx mx my) xs s = s\<lparr>missed_objs := missed_objs s @ [c], last_hist := None\<rparr>"
proof (induction xs)
  case Nil
  then show ?case by simp
next
  case (Cons a xs)
  show ?case
  proof (cases "uuid a = uuid c")
    case True
    with Cons.prems have ac: "a = c" by (auto simp: image_iff)
    let ?s' = "s\<lparr>missed_objs := missed_objs s @ [c], last_hist := None\<rparr>"
    from Cons.prems ac have "scan_obj ctx mx my a s = ?s'"
      by (simp add: scan_obj_leave)
    moreover from Cons.prems have "fold (scan_obj ctx mx my) xs ?s' = ?s'"
      by (intro fold_scan_idle) simp_all
    ultimately show ?thesis by simp
  next
    case False
    with Cons.prems have "scan_obj ctx mx my a s = s"
      by (intro scan_obj_other [of s c]) auto
    moreover from False Cons.prems have "c \<in> set xs" by auto
    ultimately show ?thesis using Cons by simp
  qed
qed

lemma scan_obj_enter:
  "\<not> object_hit s \<Longrightarrow> last_hist s = None \<Longrightarrow> spec_geometric_match ctx mx my obj \<Longrightarrow>
    scan_obj ctx mx my obj s =
      s\<lparr>hit_objs := hit_objs s @ [obj], object_hit := True, last_hist := Some obj\<rparr>"
  by (simp add: scan_obj_def record_hit_def spec_geometric_match_def split: if_splits)

lemma fold_scan_enter:
  assumes "\<not> object_hit s" "last_hist s = None"
    and "\<forall>obj\<in>set xs. spec_geometric_match ctx mx my obj = (obj = a)"
    and "a \<in> set xs" "distinct (map uuid xs)"
  shows "fold (scan_obj ctx mx my) xs s =
      s\<lparr>hit_objs := hit_objs s @ [a], object_hit := True, last_hist := Some a\<rparr>"
proof -
  from \<open>a \<in> set xs\<close> obtain pre post where xs: "xs = pre @ a # post" "a \<notin> set pre"
    by (auto dest: split_list_first)
  let ?s' = "s\<lparr>hit_objs := hit_objs s @ [a], object_hit := True, last_hist := Some a\<rparr>"
  from assms xs have "fold (scan_obj ctx mx my) pre s = s"
    by (intro fold_scan_idle) auto
  moreover from assms xs have "scan_obj ctx mx my a s = ?s'"
    by (intro scan_obj_enter) auto
  moreover have "fold (scan_obj ctx mx my) post ?s' = ?s'"
  proof (intro fold_scan_other [of _ a])
    from assms(5) xs have "uuid a \<notin> uuid ` set post" by simp
    then show "\<forall>obj\<in>set post. uuid obj \<noteq> uuid a" by (metis imageI)
  qed simp_all
  ultimately show ?thesis using xs by simp
qed

lemma trigger_hover_enter:
  assumes "objcache_last_hist this = None"
    and "\<forall>obj\<in>set (OBJ_STACK this).
           spec_geometric_match ctx (mx * devicePixelRatio win) (my * devicePixelRatio win) obj = (obj = a)"
    and "a \<in> set (OBJ_STACK this)" "distinct (map uuid (OBJ_STACK this))"
  shows "trigger_events win ctx this mx my hover =
      (True, hit_listener hover a, this\<lparr>objcache_last_hist := Some a\<rparr>)"
proof -
  have "scan_stack ctx this (mx * devicePixelRatio win) (my * devicePixelRatio win) =
      \<lparr>hit_objs = [a], missed_objs = [], object_hit = True, last_hist = Some a\<rparr>"
    unfolding scan_stack_def using assms
    by (subst fold_scan_enter [where a = a]) (simp_all add: distinct_rev rev_map [symmetric])
  then show ?thesis by (simp add: trigger_events_def Let_def)
qed

lemma trigger_hover_leave:
  assumes "objcache_last_hist this = Some a"
    and "\<forall>obj\<in>set (OBJ_STACK this).
           \<not> spec_geometric_match ctx (mx * devicePixelRatio win) (my * devicePixelRatio win) obj"
    and "a \<in> set (OBJ_STACK this)" "distinct (map uuid (OBJ_STACK this))"
  shows "trigger_events win ctx this mx my hover =
      (False, missed_listener a, this\<lparr>objcache_last_hist := None\<rparr>)"
proof -
  have "scan_stack ctx this (mx * devicePixelRatio win) (my * devicePixelRatio win) =
      \<lparr>hit_objs = [], missed_objs = [a], object_hit = False, last_hist = None\<rparr>"
    unfolding scan_stack_def using assms
    by (subst fold_scan_leave [where c = a]) (simp_all add: distinct_rev rev_map [symmetric])
  then show ?thesis by (simp add: trigger_events_def Let_def)
qed

text \<open>
  C5, as the code has it. In a store whose entries have pairwise distinct identities
  (every object added once), starting from an empty hover cache, a move to a point
  inside A only, then to a point inside no object, then to a point inside B only calls
  \<open>A.onHover\<close>, then \<open>A.onMouseLeave\<close>, then \<open>B.onHover\<close>, and nothing else; the
  hover cache, a single optional reference, holds A, then nothing, then B. The device
  pixel ratio and the rendering context are those of each event.
\<close>

theorem hover_enter_leave_enter:
  assumes "distinct (map uuid (OBJ_STACK this))"
    and "A \<in> set (OBJ_STACK this)" and "B \<in> set (OBJ_STACK this)"
    and "objcache_last_hist this = None"
    and "\<forall>obj\<in>set (OBJ_STACK this).
           spec_geometric_match ctx1 (mx1 * devicePixelRatio win1) (my1 * devicePixelRatio win1) obj
             = (obj = A)"
    and "\<forall>obj\<in>set (OBJ_STACK this).
           \<not> spec_geometric_match ctx2 (mx2 * devicePixelRatio win2) (my2 * devicePixelRatio win2) obj"
    and "\<forall>obj\<in>set (OBJ_STACK this).
           spec_geometric_match ctx3 (mx3 * devicePixelRatio win3) (my3 * devicePixelRatio win3) obj
             = (obj = B)"
    and "onHover A = Some enterA" and "onMouseLeave A = Some leaveA"
    and "onHover B = Some enterB"
  shows "trigger_events win1 ctx1 this mx1 my1 hover =
           (True, [Call enterA A], this\<lparr>objcache_last_hist := Some A\<rparr>)
       \<and> trigger_events win2 ctx2 (this\<lparr>objcache_last_hist := Some A\<rparr>) mx2 my2 hover =
           (False, [Call leaveA A], this)
       \<and> trigger_events win3 ctx3 this mx3 my3 hover =
           (True, [Call enterB B], this\<lparr>objcache_last_hist := Some B\<rparr>)"
proof -
  have 1: "trigger_events win1 ctx1 this mx1 my1 hover =
           (True, [Call enterA A], this\<lparr>objcache_last_hist := Some A\<rparr>)"
    using assms by (subst trigger_hover_enter [where a = A]) (simp_all add: hit_listener_def)
  have "trigger_events win2 ctx2 (this\<lparr>objcache_last_hist := Some A\<rparr>) mx2 my2 hover =
           (False, [Call leaveA A], this\<lparr>objcache_last_hist := Some A\<rparr>\<lparr>objcache_last_hist := None\<rparr>)"
    using assms by (subst trigger_hover_leave [where a = A]) (simp_all add: missed_listener_def)
  with assms(4) have 2: "trigger_events win2 ctx2 (this\<lparr>objcache_last_hist := Some A\<rparr>) mx2 my2 hover =
           (False, [Call leaveA A], this)" by simp
  have 3: "trigger_events win3 ctx3 this mx3 my3 hover =
           (True, [Call enterB B], this\<lparr>objcache_last_hist := Some B\<rparr>)"
    using assms by (subst trigger_hover_enter [where a = B]) (simp_all add: hit_listener_def)
  from 1 2 3 show ?thesis by simp
qed


theorem hover_enter_leave_enter_witness:
  "trigger_events window2 rect_context scene_ab 1 1 hover =
     (True, [Call 1 node_a], scene_ab\<lparr>objcache_last_hist := Some node_a\<rparr>)
   \<and> trigger_events window2 rect_context (scene_ab\<lparr>objcache_last_hist := Some node_a\<rparr>)
       30 30 hover = (False, [Call 2 node_a], scene_ab)
   \<and> trigger_events window2 rect_context scene_ab 6 6 hover =
       (True, [Call 3 node_b], scene_ab\<lparr>objcache_last_hist := Some node_b\<rparr>)"
proof -
  have ne: "node_a \<noteq> node_b" by (simp add: node_a_def node_b_def)
  have "distinct (map uuid (OBJ_STACK scene_ab))"
    by (simp add: scene_ab_def new_scene_def node_a_def node_b_def js_simps)
  moreover have "node_a \<in> set (OBJ_STACK scene_ab)" "node_b \<in> set (OBJ_STACK scene_ab)"
    "objcache_last_hist scene_ab = None"
    by (simp_all add: scene_ab_def new_scene_def)
  moreover have "\<forall>obj\<in>set (OBJ_STACK scene_ab).
      spec_geometric_match rect_context (1 * devicePixelRatio window2) (1 * devicePixelRatio window2) obj
        = (obj = node_a)"
    using ne by (simp add: scene_ab_def new_scene_def window2_def spec_geometric_match_def rect_context_def)
      (simp add: node_a_def node_b_def)
  moreover have "\<forall>obj\<in>set (OBJ_STACK scene_ab).
      \<not> spec_geometric_match rect_context (30 * devicePixelRatio window2) (30 * devicePixelRatio window2) obj"
    by (simp add: scene_ab_def new_scene_def window2_def spec_geometric_match_def rect_context_def)
      (simp add: node_a_def node_b_def)
  moreover have "\<forall>obj\<in>set (OBJ_STACK scene_ab).
      spec_geometric_match rect_context (6 * devicePixelRatio window2) (6 * devicePixelRatio window2) obj
        = (obj = node_b)"
    using ne by (simp add: scene_ab_def new_scene_def window2_def spec_geometric_match_def rect_context_def)
      (simp add: node_a_def node_b_def)
  moreover have "onHover node_a = Some 1" "onMouseLeave node_a = Some 2" "onHover node_b = Some 3"
    by (simp_all add: node_a_def node_b_def)
  ultimately show ?thesis
    by (rule hover_enter_leave_enter)
qed

text \<open>
  C5, as the claim has it, fails on a store that holds an object twice, which
  \<open>addObject\<close> accepts: once the upper entry of B is hit and cached, the scan reaches
  the lower entry, finds the identity of the cache, and reports B as left. With
  \<open>node_b\<close> added twice the three moves call \<open>A.onHover\<close>, \<open>A.onMouseLeave\<close>,
  \<open>B.onHover\<close> and \<open>B.onMouseLeave\<close>, and the cache is empty with the pointer inside B.
\<close>

theorem hover_duplicate_entry_counterexample:
  "addObject scene_ab (Some node_b) = Inr scene_abb
   \<and> objcache_last_hist scene_abb = None
   \<and> filter (spec_geometric_match rect_context (1 * 2) (1 * 2)) (OBJ_STACK scene_abb) = [node_a]
   \<and> filter (spec_geometric_match rect_context (30 * 2) (30 * 2)) (OBJ_STACK scene_abb) = []
   \<and> filter (spec_geometric_match rect_context (6 * 2) (6 * 2)) (OBJ_STACK scene_abb)
       = [node_b, node_b]
   \<and> trigger_events window2 rect_context scene_abb 1 1 hover =
       (True, [Call 1 node_a], scene_abb\<lparr>objcache_last_hist := Some node_a\<rparr>)
   \<and> trigger_events window2 rect_context (scene_abb\<lparr>objcache_last_hist := Some node_a\<rparr>)
       30 30 hover = (False, [Call 2 node_a], scene_abb)
   \<and> trigger_events window2 rect_context scene_abb 6 6 hover =
       (True, [Call 3 node_b, Call 4 node_b], scene_abb)
   \<and> [Call 1 node_a] @ [Call 2 node_a] @ [Call 3 node_b, Call 4 node_b]
       \<noteq> [Call 1 node_a, Call 2 node_a, Call 3 node_b]
   \<and> onHover node_a = Some 1 \<and> onMouseLeave node_a = Some 2
   \<and> onHover node_b = Some 3 \<and> onMouseLeave node_b = Some 4"
  by (simp add: trigger_events_def scan_stack_def scan_obj_def record_hit_def check_cached_def
      hit_listener_def missed_listener_def spec_geometric_match_def rect_context_def window2_def
      scene_ab_def scene_abb_def new_scene_def addObject_def reload_eventlisteners_def
      List.map_filter_simps Let_def node_a_def node_b_def js_simps)

subsection \<open>Painting\<close>

lemma draw_nonempty:
  "OBJ_STACK this \<noteq> [] \<Longrightarrow>
    draw (win, this) =
      (win\<lparr>animation_frame_callbacks := animation_frame_callbacks win @ [DrawFrame]\<rparr>,
       this\<lparr>surface := surface this @
         [SetAttribute ''height'' (clientHeight this * devicePixelRatio win),
          SetAttribute ''width'' (clientWidth this * devicePixelRatio win)]\<rparr>)"
  by (simp add: draw_def fixDPI_def requestAnimationFrame_def Let_def)

lemma concat_replicate_snoc: "concat (replicate n xs) @ xs = xs @ concat (replicate n xs)"
  by (induction n) simp_all

lemma draw_n:
  "OBJ_STACK this \<noteq> [] \<Longrightarrow>
    (draw ^^ n) (win, this) =
      (win\<lparr>animation_frame_callbacks := animation_frame_callbacks win @ replicate n DrawFrame\<rparr>,
       this\<lparr>surface := surface this @ concat (replicate n
         [SetAttribute ''height'' (clientHeight this * devicePixelRatio win),
          SetAttribute ''width'' (clientWidth this * devicePixelRatio win)])\<rparr>)"
proof (induction n)
  case 0
  then show ?case by simp
next
  case (Suc n)
  then show ?case
    by (simp add: draw_nonempty concat_replicate_snoc replicate_append_same)
qed

lemma paint_ops_surface: "paint_ops (this\<lparr>surface := l\<rparr>) = paint_ops this"
  by (simp add: paint_ops_def)

lemma run_callbacks_n:
  "fold run_frame_callback (replicate n DrawFrame) this =
     this\<lparr>surface := surface this @ concat (replicate n (paint_ops this))\<rparr>"
proof (induction n arbitrary: this)
  case 0
  then show ?case by simp
next
  case (Suc n)
  have step: "run_frame_callback DrawFrame this = this\<lparr>surface := surface this @ paint_ops this\<rparr>"
    by (simp add: run_frame_callback_def)
  have "fold run_frame_callback (replicate (Suc n) DrawFrame) this =
      fold run_frame_callback (replicate n DrawFrame) (run_frame_callback DrawFrame this)"
    by (simp del: fold_replicate)
  also have "\<dots> = this\<lparr>surface := surface this @ concat (replicate (Suc n) (paint_ops this))\<rparr>"
    unfolding step Suc.IH by (simp add: paint_ops_surface)
  finally show ?case .
qed

text \<open>
  C2, as the code has it. \<open>draw\<close> registers a new frame callback at every call and
  looks at no pending one: with a non-empty store and no callback pending before, \<open>n\<close>
  calls before the frame leave \<open>n\<close> callbacks, and the frame paints the surface \<open>n\<close>
  times, each paint clearing it and rendering the whole store.
\<close>

theorem draw_n_times_paints_n_times:
  assumes "OBJ_STACK this \<noteq> []" and "animation_frame_callbacks win = []"
  shows "run_animation_frame ((draw ^^ n) (win, this)) =
      (win, this\<lparr>surface := surface this
         @ concat (replicate n
             [SetAttribute ''height'' (clientHeight this * devicePixelRatio win),
              SetAttribute ''width'' (clientWidth this * devicePixelRatio win)])
         @ concat (replicate n (paint_ops this))\<rparr>)
    \<and> animation_frame_callbacks (fst ((draw ^^ n) (win, this))) = replicate n DrawFrame"
  using assms
  by (simp add: draw_n run_animation_frame_def run_callbacks_n paint_ops_surface
      del: fold_replicate)

theorem draw_n_times_paints_n_times_witness:
  "run_animation_frame ((draw ^^ 2) (window2, scene_ab)) =
      (window2, scene_ab\<lparr>surface :=
          [SetAttribute ''height'' 300, SetAttribute ''width'' 600,
           SetAttribute ''height'' 300, SetAttribute ''width'' 600]
          @ paint_ops scene_ab @ paint_ops scene_ab\<rparr>)"
proof -
  have "OBJ_STACK scene_ab \<noteq> []" "animation_frame_callbacks window2 = []"
    by (simp_all add: scene_ab_def new_scene_def window2_def)
  from draw_n_times_paints_n_times [OF this, of 2] show ?thesis
    by (simp add: numeral_2_eq_2 scene_ab_def new_scene_def window2_def)
qed

text \<open>
  C2, as the claim has it, fails: after five calls of \<open>draw\<close> the frame applies five
  paints to the surface, not one.
\<close>

theorem draw_five_times_counterexample:
  "surface (snd (run_animation_frame five_draws))
     = surface (snd five_draws)
       @ paint_ops scene_ab @ paint_ops scene_ab @ paint_ops scene_ab @ paint_ops scene_ab
       @ paint_ops scene_ab
   \<and> surface (snd (run_animation_frame five_draws))
     \<noteq> surface (snd five_draws) @ paint_ops scene_ab
   \<and> animation_frame_callbacks (fst five_draws)
     = [DrawFrame, DrawFrame, DrawFrame, DrawFrame, DrawFrame]"
  by (simp add: five_draws_def draw_def fixDPI_def requestAnimationFrame_def Let_def
    run_animation_frame_def run_frame_callback_def paint_ops_def drawObject_def scene_ab_def
    new_scene_def window2_def node_a_def node_b_def)

subsection \<open>The drawable factory\<close>

lemma startsWith_hash: "startsWith ident (js ''#'') = (ident \<noteq> [] \<and> hd ident = 0x23)"
  by (cases ident) (simp_all add: startsWith_def js_simps)

lemma counter_draws: "((snd \<circ> counter_v4) ^^ n) g = g + n"
  by (induction n) (simp_all add: counter_v4_def)

lemma counter_never_repeats: "never_repeats counter_v4"
proof -
  have "replicate (g + m) (0x75 :: code_unit) \<noteq> replicate (g + n) 0x75" if "m \<noteq> n" for g m n
  proof
    assume "replicate (g + m) (0x75 :: code_unit) = replicate (g + n) 0x75"
    then have "length (replicate (g + m) (0x75 :: code_unit)) = length (replicate (g + n) (0x75 :: code_unit))"
      by simp
    with that show False by simp
  qed
  then show ?thesis by (simp add: never_repeats_def counter_draws counter_v4_def)
qed

text \<open>
  C10. \<open>createObject\<close> throws for every id that does not start with \<open>#\<close>. For an id
  that does, it returns a Drawable with that id, with the identifier the generator
  \<open>uuid.v4\<close> yields at this call (the generator moves on), and with the operations the
  builder holds as its path. The identity is unique: with a generator that keeps its
  contract of never repeating, the Drawable of any later call, however many identifiers
  were drawn in between, has a different identity.
\<close>

theorem createObject_id_check:
  "(\<not> startsWith ident (js ''#'') \<longrightarrow>
      createObject v4 g ident bpath options fill =
        Inl (Error ''id must start with # and be a valid identifier''))
   \<and> (startsWith ident (js ''#'') \<longrightarrow>
        (\<exists>d. createObject v4 g ident bpath options fill = Inr (d, snd (v4 g))
           \<and> id_attr d = ident \<and> uuid d = fst (v4 g) \<and> path d = path2d bpath))
   \<and> startsWith ident (js ''#'') = (ident \<noteq> [] \<and> hd ident = 0x23)
   \<and> (never_repeats v4 \<longrightarrow>
        createObject v4 g ident bpath options fill = Inr (d1, g1) \<longrightarrow>
        createObject v4 (((snd \<circ> v4) ^^ n) g1) ident2 bpath2 options2 fill2 = Inr (d2, g2) \<longrightarrow>
        uuid d1 \<noteq> uuid d2)"
proof -
  have uniq: "uuid d1 \<noteq> uuid d2"
    if nr: "never_repeats v4"
      and c1: "createObject v4 g ident bpath options fill = Inr (d1, g1)"
      and c2: "createObject v4 (((snd \<circ> v4) ^^ n) g1) ident2 bpath2 options2 fill2 = Inr (d2, g2)"
  proof -
    from c1 have d1: "uuid d1 = fst (v4 g)" and g1: "g1 = snd (v4 g)"
      by (auto simp: createObject_def Let_def split: prod.splits if_splits)
    from c2 have d2: "uuid d2 = fst (v4 (((snd \<circ> v4) ^^ n) g1))"
      by (auto simp: createObject_def Let_def split: prod.splits if_splits)
    have "((snd \<circ> v4) ^^ n) g1 = ((snd \<circ> v4) ^^ Suc n) g"
      by (simp add: g1 funpow_swap1)
    with d2 have d2': "uuid d2 = fst (v4 (((snd \<circ> v4) ^^ Suc n) g))" by simp
    from nr have "fst (v4 (((snd \<circ> v4) ^^ 0) g)) \<noteq> fst (v4 (((snd \<circ> v4) ^^ Suc n) g))"
      unfolding never_repeats_def by blast
    with d1 d2' show ?thesis by simp
  qed
  have 1: "\<not> startsWith ident (js ''#'') \<longrightarrow>
      createObject v4 g ident bpath options fill =
        Inl (Error ''id must start with # and be a valid identifier'')"
    by (simp add: createObject_def Let_def)
  have 2: "startsWith ident (js ''#'') \<longrightarrow>
        (\<exists>d. createObject v4 g ident bpath options fill = Inr (d, snd (v4 g))
           \<and> id_attr d = ident \<and> uuid d = fst (v4 g) \<and> path d = path2d bpath)"
    by (auto simp: createObject_def Let_def getPath_def split: prod.splits)
  from 1 2 startsWith_hash [of ident] uniq show ?thesis by blast
qed

theorem createObject_id_check_witness:
  "createObject counter_v4 2 (js ''textnode'') square_builder no_options None =
     Inl (Error ''id must start with # and be a valid identifier'')
   \<and> never_repeats counter_v4
   \<and> (\<exists>d1 d2. createObject counter_v4 2 (js ''#textnode'') square_builder no_options None =
          Inr (d1, 3)
        \<and> id_attr d1 = js ''#textnode'' \<and> uuid d1 = [0x75, 0x75] \<and> path d1 = [Rect 0 0 10 10]
        \<and> createObject counter_v4 3 (js ''#textnode'') new_BrainMapsPath2D no_options None =
          Inr (d2, 4)
        \<and> uuid d2 = [0x75, 0x75, 0x75] \<and> uuid d1 \<noteq> uuid d2)"
proof -
  have r2: "replicate 2 (0x75 :: code_unit) = [0x75, 0x75]"
    and r3: "replicate 3 (0x75 :: code_unit) = [0x75, 0x75, 0x75]"
    by (simp_all add: numeral_2_eq_2 numeral_3_eq_3)
  have a: "createObject counter_v4 2 (js ''textnode'') square_builder no_options None =
     Inl (Error ''id must start with # and be a valid identifier'')"
    using createObject_id_check [of "js ''textnode''" counter_v4 2 square_builder no_options None]
    by (simp add: js_simps startsWith_def)
  from createObject_id_check [of "js ''#textnode''" counter_v4 2 square_builder no_options None,
      THEN conjunct2, THEN conjunct1]
  obtain d1 where d1: "createObject counter_v4 2 (js ''#textnode'') square_builder no_options None =
          Inr (d1, 3)" "id_attr d1 = js ''#textnode''" "uuid d1 = [0x75, 0x75]"
      "path d1 = [Rect 0 0 10 10]"
    by (auto simp: js_simps startsWith_def counter_v4_def square_builder_def rect_def
        new_BrainMapsPath2D_def r2)
  from createObject_id_check [of "js ''#textnode''" counter_v4 3 new_BrainMapsPath2D no_options None,
      THEN conjunct2, THEN conjunct1]
  obtain d2 where d2: "createObject counter_v4 3 (js ''#textnode'') new_BrainMapsPath2D no_options None =
          Inr (d2, 4)" "uuid d2 = [0x75, 0x75, 0x75]"
    by (auto simp: js_simps startsWith_def counter_v4_def r3)
  have later: "createObject counter_v4 (((snd \<circ> counter_v4) ^^ 0) 3) (js ''#textnode'')
      new_BrainMapsPath2D no_options None = Inr (d2, 4)"
    using d2(1) by simp
  have "uuid d1 \<noteq> uuid d2"
    by (rule createObject_id_check [of "js ''#textnode''" counter_v4 2 square_builder no_options
          None d1 3 0 "js ''#textnode''" new_BrainMapsPath2D no_options None d2 4,
          THEN conjunct2, THEN conjunct2, THEN conjunct2, rule_format,
          OF counter_never_repeats d1(1) later])
  with a d1 d2 counter_never_repeats show ?thesis by blast
qed

section \<open>Properties of the text layout\<close>

subsection \<open>Termination of the line-fill loop\<close>

lemmas char_class = is_word_char_def is_ascii_letter_def is_space_def

lemma fill_lines_returned_not_stuck:
  assumes "fill_lines doc opts st = Some st'"
  shows "\<not> (temp_text st \<noteq> [] \<and> fill_step doc opts st = st)"
proof (rule fill_lines.raw_induct [where P = "\<lambda>doc opts st st'.
    \<not> (temp_text st \<noteq> [] \<and> fill_step doc opts st = st)", OF _ assms])
  fix f doc opts st st'
  assume IH: "\<And>doc opts st st'. f doc opts st = Some st' \<Longrightarrow>
      \<not> (temp_text st \<noteq> [] \<and> fill_step doc opts st = st)"
    and body: "(if 0 < length (temp_text st) then f doc opts (fill_step doc opts st)
               else Some st) = Some st'"
  show "\<not> (temp_text st \<noteq> [] \<and> fill_step doc opts st = st)"
  proof
    assume stuck: "temp_text st \<noteq> [] \<and> fill_step doc opts st = st"
    with body have "f doc opts st = Some st'" by simp
    from IH [OF this] stuck show False by simp
  qed
qed

lemma fill_lines_stuck:
  "temp_text st \<noteq> [] \<Longrightarrow> fill_step doc opts st = st \<Longrightarrow> fill_lines doc opts st = None"
  using fill_lines_returned_not_stuck [of doc opts st] by (cases "fill_lines doc opts st") auto

lemma fill_step_oversize:
  assumes "temp_text st = u # us" "line_pointer st = []" "lines st \<noteq> []" "last (lines st) = []"
    and "textMaxWidth opts < width (tryLayout doc opts (trim u))"
  shows "fill_step doc opts st = st"
  using assms by (simp add: fill_step_def Let_def last_conv_nth)

lemma layoutText_first_unit_oversize:
  assumes "0 < textMaxWidth opts" and "text_match txt = Some groups"
    and "cnpunc_loop 0 groups [] = u # us"
    and "textMaxWidth opts < width (tryLayout doc opts (trim u))"
  shows "layoutText doc txt opts = None"
proof -
  have "fill_lines doc opts (fill_start (u # us)) = None"
    using assms(4) by (intro fill_lines_stuck fill_step_oversize) (simp_all add: fill_start_def)
  with assms(1-3) show ?thesis by (simp add: layoutText_def)
qed

lemma fill_lines_returns_if_units_fit:
  assumes "lines st \<noteq> []" and "last (lines st) = line_pointer st"
    and "\<forall>u\<in>set (temp_text st). width (tryLayout doc opts (trim u)) \<le> textMaxWidth opts"
  shows "\<exists>st'. fill_lines doc opts st = Some st'"
  using assms
proof (induction "2 * length (temp_text st) + (if line_pointer st = [] then 0 else 1)"
    arbitrary: st rule: less_induct)
  case less
  show ?case
  proof (cases "temp_text st")
    case Nil
    then show ?thesis by (simp add: fill_lines.simps)
  next
    case (Cons u us)
    let ?st1 = "fill_step doc opts st"
    have unfold: "fill_lines doc opts st = fill_lines doc opts ?st1"
      using Cons by (subst fill_lines.simps) simp
    have last_nth: "lines st ! (length (lines st) - 1) = line_pointer st"
      using less.prems(1,2) by (simp add: last_conv_nth)
    consider (commit) "round_commits doc opts st"
      | (seal) "\<not> round_commits doc opts st" "line_pointer st \<noteq> []"
      | (stuck) "\<not> round_commits doc opts st" "line_pointer st = []"
      by blast
    then have "\<exists>st'. fill_lines doc opts ?st1 = Some st'"
    proof cases
      case commit
      then have st1: "?st1 = st\<lparr>line_pointer := line_pointer st @ u,
              lines := (lines st)[length (lines st) - 1 := line_pointer st @ u],
              temp_text := us,
              maxWidth := max (round_width doc opts st) (maxWidth st)\<rparr>"
        using Cons by (simp add: fill_step_def round_commits_def round_width_def Let_def)
      show ?thesis
      proof (rule less.hyps)
        show "2 * length (temp_text ?st1) + (if line_pointer ?st1 = [] then 0 else 1)
            < 2 * length (temp_text st) + (if line_pointer st = [] then 0 else 1)"
          using Cons by (simp add: st1)
        show "lines ?st1 \<noteq> []" using less.prems(1) by (simp add: st1)
        show "last (lines ?st1) = line_pointer ?st1"
          using less.prems(1) by (simp add: st1 last_conv_nth)
        show "\<forall>u\<in>set (temp_text ?st1). width (tryLayout doc opts (trim u)) \<le> textMaxWidth opts"
          using less.prems(3) Cons by (simp add: st1)
      qed
    next
      case seal
      then have st1: "?st1 = st\<lparr>lines := (lines st)[length (lines st) - 1 :=
                         trim (lines st ! (length (lines st) - 1))] @ [[]],
              line_pointer := []\<rparr>"
        using Cons last_nth
        by (simp add: fill_step_def round_commits_def round_width_def Let_def)
      show ?thesis
      proof (rule less.hyps)
        show "2 * length (temp_text ?st1) + (if line_pointer ?st1 = [] then 0 else 1)
            < 2 * length (temp_text st) + (if line_pointer st = [] then 0 else 1)"
          using seal(2) by (simp add: st1)
        show "lines ?st1 \<noteq> []" by (simp add: st1)
        show "last (lines ?st1) = line_pointer ?st1" by (simp add: st1)
        show "\<forall>u\<in>set (temp_text ?st1). width (tryLayout doc opts (trim u)) \<le> textMaxWidth opts"
          using less.prems(3) by (simp add: st1)
      qed
    next
      case stuck
      with Cons less.prems(3) have False
        by (simp add: round_commits_def round_width_def)
      then show ?thesis ..
    qed
    with unfold show ?thesis by simp
  qed
qed

lemma layoutText_returns_if_units_fit:
  assumes "0 < textMaxWidth opts" and "text_match txt = Some groups"
    and "\<forall>u\<in>set (cnpunc_loop 0 groups []).
           width (tryLayout doc opts (trim u)) \<le> textMaxWidth opts"
  shows "\<exists>r. layoutText doc txt opts = Some (Inr r)"
proof -
  have "\<exists>st'. fill_lines doc opts (fill_start (cnpunc_loop 0 groups [])) = Some st'"
    using assms(3) by (intro fill_lines_returns_if_units_fit) (simp_all add: fill_start_def)
  with assms(1,2) show ?thesis by (auto simp: layoutText_def)
qed

text \<open>
  C1. The claim: for every text and every positive maximal width the line-fill loop
  terminates, a unit wider than the maximal width being placed into an empty line. The
  loop has no branch for a unit that does not fit an empty line: that round assigns
  nothing, so the loop runs forever (\<open>fill_lines_stuck\<close>,
  \<open>layoutText_first_unit_oversize\<close>). In a document that renders every code unit 10
  wide, with maximal width 30, the text \<open>hello\<close> is one unit of width 50 and
  \<open>layoutText\<close> does not return. The loop does terminate when every unit fits a line
  of its own (\<open>fill_lines_returns_if_units_fit\<close>).
\<close>

theorem layoutText_oversize_unit_never_returns:
  "layoutText fixed_width (js ''hello'') options30 = None"
  by (simp add: layoutText_def text_match_def js_simps char_class cn_punc_def
      fill_lines_stuck fill_step_def fill_start_def tryLayout_def trim_def options30_def fixed_width_def Let_def)

subsection \<open>Units\<close>

lemma cnpunc_loop_snoc:
  "cnpunc_loop i (ts @ [u]) acc =
     (let a = cnpunc_loop i ts acc in
      if i + length ts > 0 \<and> u \<in> set cn_punc
      then a[length a - 1 := a ! (length a - 1) @ u] else a @ [u])"
  by (induction ts arbitrary: i acc) (simp_all add: Let_def)

lemma cnpunc_loop_nonempty: "acc \<noteq> [] \<Longrightarrow> cnpunc_loop i ts acc \<noteq> []"
  by (induction ts arbitrary: i acc) simp_all

lemma cnpunc_loop_first: "ts \<noteq> [] \<Longrightarrow> cnpunc_loop 0 ts [] \<noteq> []"
  by (cases ts) (simp_all add: cnpunc_loop_nonempty)

lemma update_last: "a \<noteq> [] \<Longrightarrow> a[length a - 1 := a ! (length a - 1) @ u] = butlast a @ [last a @ u]"
  by (induction a rule: rev_induct) (simp_all add: nth_append)

text \<open>
  C7. In the post-processing loop a unit that is one of the ten marks (full-width comma,
  ideographic full stop, full-width exclamation mark, semicolon and question mark, the two
  double quotation marks, full-width colon, the two full-width parentheses) and is not the
  first unit is appended to the last output unit, which exists; every other unit starts a
  new output unit. The text \<open>A,b.\<close> followed by the two ideographs and a full-width
  comma has the units \<open>A,b.\<close>, the first ideograph, and the second ideograph with the
  comma.
\<close>

theorem cn_punctuation_joins_previous_unit:
  "cnpunc_loop 0 (us @ [u]) [] =
     (if us \<noteq> [] \<and> u \<in> set cn_punc
      then butlast (cnpunc_loop 0 us []) @ [last (cnpunc_loop 0 us []) @ u]
      else cnpunc_loop 0 us [] @ [u])
   \<and> (us = [] \<or> cnpunc_loop 0 us [] \<noteq> [])
   \<and> set cn_punc =
       {[0xFF0C], [0x3002], [0xFF01], [0xFF1B], [0xFF1F], [0x201C], [0x201D], [0xFF1A],
        [0xFF08], [0xFF09]}
   \<and> text_match [0x41, 0x2C, 0x62, 0x2E, 0x4E07, 0x9A8F, 0xFF0C] =
       Some [[0x41, 0x2C, 0x62, 0x2E], [0x4E07], [0x9A8F], [0xFF0C]]
   \<and> cnpunc_loop 0 [[0x41, 0x2C, 0x62, 0x2E], [0x4E07], [0x9A8F], [0xFF0C]] [] =
       [[0x41, 0x2C, 0x62, 0x2E], [0x4E07], [0x9A8F, 0xFF0C]]"
proof -
  have 1: "cnpunc_loop 0 (us @ [u]) [] =
     (if us \<noteq> [] \<and> u \<in> set cn_punc
      then butlast (cnpunc_loop 0 us []) @ [last (cnpunc_loop 0 us []) @ u]
      else cnpunc_loop 0 us [] @ [u])"
  proof (cases "us \<noteq> [] \<and> u \<in> set cn_punc")
    case True
    then have "cnpunc_loop 0 us [] \<noteq> []" by (simp add: cnpunc_loop_first)
    from update_last [OF this, of u] True show ?thesis
      by (simp add: cnpunc_loop_snoc Let_def)
  next
    case False
    then show ?thesis by (auto simp: cnpunc_loop_snoc Let_def)
  qed
  have 2: "us = [] \<or> cnpunc_loop 0 us [] \<noteq> []"
    using cnpunc_loop_first by blast
  have 3: "set cn_punc =
       {[0xFF0C], [0x3002], [0xFF01], [0xFF1B], [0xFF1F], [0x201C], [0x201D], [0xFF1A],
        [0xFF08], [0xFF09]}"
    by (simp add: cn_punc_def)
  have 4: "text_match [0x41, 0x2C, 0x62, 0x2E, 0x4E07, 0x9A8F, 0xFF0C] =
       Some [[0x41, 0x2C, 0x62, 0x2E], [0x4E07], [0x9A8F], [0xFF0C]]"
    by (simp add: text_match_def char_class)
  have 5: "cnpunc_loop 0 [[0x41, 0x2C, 0x62, 0x2E], [0x4E07], [0x9A8F], [0xFF0C]] [] =
       [[0x41, 0x2C, 0x62, 0x2E], [0x4E07], [0x9A8F, 0xFF0C]]"
    by (simp add: cn_punc_def)
  from 1 2 3 4 5 show ?thesis by blast
qed

theorem cn_punctuation_joins_previous_unit_witness:
  "cnpunc_loop 0 ([[0x4E07], [0x9A8F]] @ [[0xFF0C]]) [] = [[0x4E07], [0x9A8F, 0xFF0C]]
   \<and> cnpunc_loop 0 ([] @ [[0xFF0C]]) [] = [[0xFF0C]]"
  using cn_punctuation_joins_previous_unit [of "[[0x4E07], [0x9A8F]]" "[0xFF0C]"]
    cn_punctuation_joins_previous_unit [of "[]" "[0xFF0C]"]
  by (simp add: cn_punc_def)

subsection \<open>The box\<close>

lemma fill_lines_rounds:
  assumes "fill_lines doc opts st = Some st'"
  shows "\<exists>k. st' = (fill_step doc opts ^^ k) st \<and> temp_text st' = []
             \<and> (\<forall>j<k. temp_text ((fill_step doc opts ^^ j) st) \<noteq> [])"
proof (rule fill_lines.raw_induct [where P = "\<lambda>doc opts st st'.
    \<exists>k. st' = (fill_step doc opts ^^ k) st \<and> temp_text st' = []
             \<and> (\<forall>j<k. temp_text ((fill_step doc opts ^^ j) st) \<noteq> [])", OF _ assms])
  fix f doc opts st st'
  assume IH: "\<And>doc opts st st'. f doc opts st = Some st' \<Longrightarrow>
      \<exists>k. st' = (fill_step doc opts ^^ k) st \<and> temp_text st' = []
             \<and> (\<forall>j<k. temp_text ((fill_step doc opts ^^ j) st) \<noteq> [])"
    and body: "(if 0 < length (temp_text st) then f doc opts (fill_step doc opts st)
               else Some st) = Some st'"
  show "\<exists>k. st' = (fill_step doc opts ^^ k) st \<and> temp_text st' = []
             \<and> (\<forall>j<k. temp_text ((fill_step doc opts ^^ j) st) \<noteq> [])"
  proof (cases "temp_text st = []")
    case True
    with body have "st' = st" by simp
    with True show ?thesis by (intro exI [of _ 0]) simp
  next
    case False
    with body have "f doc opts (fill_step doc opts st) = Some st'" by simp
    from IH [OF this] obtain k where k: "st' = (fill_step doc opts ^^ k) (fill_step doc opts st)"
      "temp_text st' = []"
      "\<forall>j<k. temp_text ((fill_step doc opts ^^ j) (fill_step doc opts st)) \<noteq> []"
      by blast
    have "\<forall>j<Suc k. temp_text ((fill_step doc opts ^^ j) st) \<noteq> []"
    proof (intro allI impI)
      fix j assume "j < Suc k"
      then show "temp_text ((fill_step doc opts ^^ j) st) \<noteq> []"
        using False k(3) by (cases j) (simp_all add: funpow_swap1)
    qed
    with k(1,2) show ?thesis
      by (intro exI [of _ "Suc k"]) (simp add: funpow_swap1)
  qed
qed

lemma maxWidth_fill_step:
  "maxWidth (fill_step doc opts st) =
     (if round_commits doc opts st then max (round_width doc opts st) (maxWidth st)
      else maxWidth st)"
  by (simp add: fill_step_def round_commits_def round_width_def Let_def)

lemma maxWidth_rounds:
  "maxWidth ((fill_step doc opts ^^ k) st) = Max (set (maxWidth st # observed_widths doc opts st k))"
proof -
  have "maxWidth ((fill_step doc opts ^^ k) st) = fold max (observed_widths doc opts st k) (maxWidth st)"
    by (induction k) (simp_all add: observed_widths_def maxWidth_fill_step)
  then show ?thesis by (simp only: Max.set_eq_fold)
qed

lemma layoutText_box_if_returned:
  assumes "0 < textMaxWidth opts" and "layoutText doc txt opts = Some (Inr r)"
  shows "\<exists>groups k.
      text_match txt = Some groups
    \<and> fill_lines doc opts (fill_start (cnpunc_loop 0 groups [])) =
        Some ((fill_step doc opts ^^ k) (fill_start (cnpunc_loop 0 groups [])))
    \<and> lines_out r = lines ((fill_step doc opts ^^ k) (fill_start (cnpunc_loop 0 groups [])))
    \<and> width (size_box r) =
        min (Max (set (0 # observed_widths doc opts (fill_start (cnpunc_loop 0 groups [])) k)))
          (textMaxWidth opts)
    \<and> height (size_box r) =
        real (length (lines_out r)) * textSize opts
        + (real (length (lines_out r)) - 1) * 0.25 * textSize opts"
proof -
  from assms obtain groups st where g: "text_match txt = Some groups"
    and f: "fill_lines doc opts (fill_start (cnpunc_loop 0 groups [])) = Some st"
    and r: "r = \<lparr>size_box =
                   \<lparr>width = min (maxWidth st) (textMaxWidth opts),
                    height = real (length (lines st)) * textSize opts
                      + (real (length (lines st)) - 1) * 0.25 * textSize opts\<rparr>,
                 lines_out = lines st\<rparr>"
    by (auto simp: layoutText_def split: option.splits)
  from fill_lines_rounds [OF f] obtain k
    where k: "st = (fill_step doc opts ^^ k) (fill_start (cnpunc_loop 0 groups []))" by blast
  have "maxWidth st =
      Max (set (0 # observed_widths doc opts (fill_start (cnpunc_loop 0 groups [])) k))"
    unfolding k maxWidth_rounds by (simp add: fill_start_def)
  with g f r k show ?thesis by (intro exI [of _ groups] exI [of _ k]) simp
qed

text \<open>
  C9. For a positive maximal width and a text whose units each fit a line of their own,
  \<open>layoutText\<close> returns a box: the loop returns after some number \<open>k\<close> of rounds, the
  lines are those of its final state, the width is the minimum of the maximal width and
  the largest width observed (the maximum of 0 and the widths measured in the rounds that
  committed a unit), and the height is
  \<open>lineCount * fontSize + (lineCount - 1) * 0.25 * fontSize\<close> for the number of lines
  produced. Every box \<open>layoutText\<close> returns for a positive maximal width has this width
  and this height.
\<close>

theorem layoutText_box:
  assumes "0 < textMaxWidth opts"
  shows "(text_match txt = Some groups
          \<and> (\<forall>u\<in>set (cnpunc_loop 0 groups []).
                width (tryLayout doc opts (trim u)) \<le> textMaxWidth opts)
        \<longrightarrow> (\<exists>r k.
              layoutText doc txt opts = Some (Inr r)
            \<and> fill_lines doc opts (fill_start (cnpunc_loop 0 groups [])) =
                Some ((fill_step doc opts ^^ k) (fill_start (cnpunc_loop 0 groups [])))
            \<and> lines_out r =
                lines ((fill_step doc opts ^^ k) (fill_start (cnpunc_loop 0 groups [])))
            \<and> width (size_box r) =
                min (Max (set (0 # observed_widths doc opts
                                     (fill_start (cnpunc_loop 0 groups [])) k)))
                  (textMaxWidth opts)
            \<and> height (size_box r) =
                real (length (lines_out r)) * textSize opts
                + (real (length (lines_out r)) - 1) * 0.25 * textSize opts))
     \<and> (layoutText doc txt opts = Some (Inr box)
        \<longrightarrow> (\<exists>groups k.
              text_match txt = Some groups
            \<and> lines_out box =
                lines ((fill_step doc opts ^^ k) (fill_start (cnpunc_loop 0 groups [])))
            \<and> width (size_box box) =
                min (Max (set (0 # observed_widths doc opts
                                     (fill_start (cnpunc_loop 0 groups [])) k)))
                  (textMaxWidth opts)
            \<and> height (size_box box) =
                real (length (lines_out box)) * textSize opts
                + (real (length (lines_out box)) - 1) * 0.25 * textSize opts))"
proof (intro conjI impI)
  assume fit: "text_match txt = Some groups
          \<and> (\<forall>u\<in>set (cnpunc_loop 0 groups []).
                width (tryLayout doc opts (trim u)) \<le> textMaxWidth opts)"
  with assms layoutText_returns_if_units_fit [of opts "txt" groups doc]
  obtain r where r: "layoutText doc txt opts = Some (Inr r)" by blast
  from layoutText_box_if_returned [OF assms r] fit r
  show "\<exists>r k.
              layoutText doc txt opts = Some (Inr r)
            \<and> fill_lines doc opts (fill_start (cnpunc_loop 0 groups [])) =
                Some ((fill_step doc opts ^^ k) (fill_start (cnpunc_loop 0 groups [])))
            \<and> lines_out r =
                lines ((fill_step doc opts ^^ k) (fill_start (cnpunc_loop 0 groups [])))
            \<and> width (size_box r) =
                min (Max (set (0 # observed_widths doc opts
                                     (fill_start (cnpunc_loop 0 groups [])) k)))
                  (textMaxWidth opts)
            \<and> height (size_box r) =
                real (length (lines_out r)) * textSize opts
                + (real (length (lines_out r)) - 1) * 0.25 * textSize opts"
    by auto
next
  assume "layoutText doc txt opts = Some (Inr box)"
  from layoutText_box_if_returned [OF assms this]
  show "\<exists>groups k.
              text_match txt = Some groups
            \<and> lines_out box =
                lines ((fill_step doc opts ^^ k) (fill_start (cnpunc_loop 0 groups [])))
            \<and> width (size_box box) =
                min (Max (set (0 # observed_widths doc opts
                                     (fill_start (cnpunc_loop 0 groups [])) k)))
                  (textMaxWidth opts)
            \<and> height (size_box box) =
                real (length (lines_out box)) * textSize opts
                + (real (length (lines_out box)) - 1) * 0.25 * textSize opts"
    by blast
qed

theorem layoutText_box_witness:
  "0 < textMaxWidth options30
   \<and> text_match (js ''ab cd'') = Some [js ''ab '', js ''cd'']
   \<and> cnpunc_loop 0 [js ''ab '', js ''cd''] [] = [js ''ab '', js ''cd'']
   \<and> width (tryLayout fixed_width options30 (trim (js ''ab ''))) = 20
   \<and> width (tryLayout fixed_width options30 (trim (js ''cd''))) = 20
   \<and> (\<exists>r. layoutText fixed_width (js ''ab cd'') options30 = Some (Inr r)
          \<and> lines_out r = [js ''ab'', js ''cd'']
          \<and> width (size_box r) = 20 \<and> height (size_box r) = 54)"
proof -
  have p: "0 < textMaxWidth options30" by (simp add: options30_def)
  have g: "text_match (js ''ab cd'') = Some [js ''ab '', js ''cd'']"
    by (simp add: text_match_def js_simps char_class)
  have c: "cnpunc_loop 0 [js ''ab '', js ''cd''] [] = [js ''ab '', js ''cd'']"
    by (simp add: js_simps cn_punc_def)
  have w: "width (tryLayout fixed_width options30 (trim (js ''ab ''))) = 20"
    "width (tryLayout fixed_width options30 (trim (js ''cd''))) = 20"
    by (simp_all add: tryLayout_def fixed_width_def trim_def js_simps is_space_def)
  have fit: "\<forall>u\<in>set (cnpunc_loop 0 [js ''ab '', js ''cd''] []).
                width (tryLayout fixed_width options30 (trim u)) \<le> textMaxWidth options30"
    unfolding c using w by (simp add: options30_def)
  from layoutText_box [OF p, THEN conjunct1, rule_format, OF conjI [OF g fit]]
  obtain r where r: "layoutText fixed_width (js ''ab cd'') options30 = Some (Inr r)" by blast
  have "layoutText fixed_width (js ''ab cd'') options30 =
     Some (Inr \<lparr>size_box = \<lparr>width = 20, height = 54\<rparr>, lines_out = [js ''ab'', js ''cd'']\<rparr>)"
    by (simp add: layoutText_def text_match_def js_simps char_class cn_punc_def
      fill_lines.simps fill_step_def fill_start_def tryLayout_def trim_def options30_def
      fixed_width_def Let_def)
  with r have "r = \<lparr>size_box = \<lparr>width = 20, height = 54\<rparr>,
      lines_out = [js ''ab'', js ''cd'']\<rparr>" by simp
  then have "lines_out r = [js ''ab'', js ''cd'']" "width (size_box r) = 20"
    "height (size_box r) = 54" by simp_all
  with p g c w r show ?thesis by blast
qed

end
